theory Spec2Isabelle
  imports Complex_Main "HOL-Library.Sublist" "HOL-Library.Log_Nat"
begin

section \<open>RIFE frame-rate conversion filter: the scheduling layer of plugin.cpp\<close>

text \<open>
  A shallow embedding of \<^verbatim>\<open>src/RIFE/plugin.cpp\<close>: the construction-time validation
  (\<^verbatim>\<open>rifeCreate\<close>), the two activation phases of the frame callback
  (\<^verbatim>\<open>rifeGetFrame\<close>) and the semaphore bracket around the engine call
  (\<^verbatim>\<open>filter\<close>).

  Conventions of the embedding:
  \<^item> C++ \<^verbatim>\<open>int\<close> is a 32-bit two's-complement integer. Values are kept as \<open>int\<close> and
    every multiplication, addition and subtraction of the source is followed by
    \<open>wrap32\<close>; division and remainder truncate towards zero (\<open>c_div\<close>, \<open>c_rem\<close>).
    Signed overflow is undefined behaviour in C++; the wrap-around is what the
    hardware does and is only there so that overflow is visible in the model.
  \<^item> \<^verbatim>\<open>double\<close> values (the PSNR score and its threshold) are finite reals; NaN and
    the infinities are outside the model.
  \<^item> \<^verbatim>\<open>float\<close> is IEEE binary32 with rounding to nearest, ties to even: the two casts
    and the division that make the time step are each rounded to a 24-bit
    significand (\<open>b32_of_int\<close>, \<open>b32_div\<close>).
  \<^item> Everything behind the VapourSynth and ncnn interfaces is a parameter: the
    clips are functions from frame numbers to frames, the engine is a function on
    pixel data, the GPU and file system are fields of an environment record.
\<close>

subsection \<open>32-bit integers\<close>

definition INT_MAX :: int where
  "INT_MAX = 2147483647"

definition INT_MIN :: int where
  "INT_MIN = - 2147483648"

definition in_i32 :: "int \<Rightarrow> bool" where
  "in_i32 x = (INT_MIN \<le> x \<and> x \<le> INT_MAX)"

definition wrap32 :: "int \<Rightarrow> int" where
  "wrap32 x = (x + 2147483648) mod 4294967296 - 2147483648"

definition c_div :: "int \<Rightarrow> int \<Rightarrow> int" where
  "c_div a b = sgn a * sgn b * (\<bar>a\<bar> div \<bar>b\<bar>)"

definition c_rem :: "int \<Rightarrow> int \<Rightarrow> int" where
  "c_rem a b = a - b * c_div a b"

definition i32_mul :: "int \<Rightarrow> int \<Rightarrow> int" where
  "i32_mul a b = wrap32 (a * b)"

definition i32_add :: "int \<Rightarrow> int \<Rightarrow> int" where
  "i32_add a b = wrap32 (a + b)"

definition i32_sub :: "int \<Rightarrow> int \<Rightarrow> int" where
  "i32_sub a b = wrap32 (a - b)"

subsection \<open>Single-precision floats\<close>

text \<open>A binary32 number has a significand of 24 bits; a result that needs more is
  rounded to the nearest number that has, and to the one with an even significand when
  two are equally near. The numbers that arise here are zero or of magnitude between
  \<open>1 / 2 ^ 31\<close> and \<open>2 ^ 31\<close>, far inside the exponent range, so subnormal numbers,
  infinities and NaN play no part.\<close>

text \<open>The integer nearest to \<open>a / b\<close>, the even one of two equally near, for \<open>b > 0\<close>.\<close>

definition round_half_even :: "int \<Rightarrow> int \<Rightarrow> int" where
  "round_half_even a b =
     (let q = a div b; r = a mod b
      in if 2 * r < b \<or> (2 * r = b \<and> even q) then q else q + 1)"

text \<open>\<^verbatim>\<open>static_cast<float>(k)\<close> for a 32-bit \<open>k\<close>. The value is again an integer: \<open>k\<close> itself
  when 24 bits hold it, else \<open>k\<close> rounded to a multiple of the power of two that leaves 24
  bits.\<close>

definition b32_of_int :: "int \<Rightarrow> int" where
  "b32_of_int k =
     (let u = bitlen \<bar>k\<bar> - 24
      in if u \<le> 0 then k
         else sgn k * (round_half_even \<bar>k\<bar> (2 ^ nat u) * 2 ^ nat u))"

text \<open>The binary exponent of \<open>a / b\<close> for positive \<open>a\<close> and \<open>b\<close>: the \<open>e\<close> with
  \<open>2 ^ e \<le> a / b < 2 ^ (e + 1)\<close>.\<close>

definition b32_exponent :: "int \<Rightarrow> int \<Rightarrow> int" where
  "b32_exponent a b =
     (let k = bitlen a - bitlen b
      in if b * 2 ^ nat k \<le> a * 2 ^ nat (- k) then k else k - 1)"

text \<open>The binary32 quotient \<open>a / b\<close> of two binary32 numbers that are integers: the exact
  quotient rounded to a multiple of \<open>2 ^ (e - 23)\<close>. A zero divisor, for which the hardware
  gives an infinity or NaN, does not arise (the multiplier is at least 2) and is not
  modelled.\<close>

definition b32_div :: "int \<Rightarrow> int \<Rightarrow> real" where
  "b32_div a b =
     (if a = 0 then 0
      else
        let u = b32_exponent \<bar>a\<bar> \<bar>b\<bar> - 23;
            m = round_half_even (\<bar>a\<bar> * 2 ^ nat (- u)) (\<bar>b\<bar> * 2 ^ nat u)
        in real_of_int (sgn a * sgn b * m) * 2 ^ nat u / 2 ^ nat (- u))"

subsection \<open>Property maps and frames\<close>

datatype prop_value = PInt int | PFloat real | PData string

type_synonym vsmap = "string \<Rightarrow> prop_value option"

text \<open>\<^verbatim>\<open>mapGetInt(map, key, 0, &err)\<close>: the value and the error flag; 0 with the flag set
  when the key is missing or holds another type.\<close>

definition mapGetInt :: "vsmap \<Rightarrow> string \<Rightarrow> int \<times> bool" where
  "mapGetInt m k = (case m k of Some (PInt v) \<Rightarrow> (v, False) | _ \<Rightarrow> (0, True))"

text \<open>\<^verbatim>\<open>mapGetFloat(map, key, 0, nullptr)\<close>: with no error pointer a failed read is fatal
  in the host; \<open>None\<close> stands for that.\<close>

definition mapGetFloat :: "vsmap \<Rightarrow> string \<Rightarrow> real option" where
  "mapGetFloat m k = (case m k of Some (PFloat v) \<Rightarrow> Some v | _ \<Rightarrow> None)"

text \<open>\<^verbatim>\<open>mapSetInt(map, key, v, maReplace)\<close>.\<close>

definition mapSetInt :: "vsmap \<Rightarrow> string \<Rightarrow> int \<Rightarrow> vsmap" where
  "mapSetInt m k v = m(k \<mapsto> PInt v)"

record 'p frame =
  pixels :: 'p
  props :: vsmap

text \<open>\<^verbatim>\<open>copyFrame\<close>: same planes, same properties.\<close>

definition copyFrame :: "'p frame \<Rightarrow> 'p frame" where
  "copyFrame f = f"

text \<open>\<^verbatim>\<open>newVideoFrame(format, w, h, propSrc, core)\<close>: fresh planes (given here by what is
  written into them afterwards), properties copied from \<open>propSrc\<close>.\<close>

definition newVideoFrame :: "'p \<Rightarrow> 'p frame \<Rightarrow> 'p frame" where
  "newVideoFrame px propSrc = \<lparr> pixels = px, props = props propSrc \<rparr>"

subsection \<open>Rational helper of the host library\<close>

text \<open>Modelled from the spec: \<^verbatim>\<open>vsh::muldivRational\<close> lives in the host's helper header
  \<^verbatim>\<open>VSHelper4.h\<close>, which is not part of the sources. The specification describes it as
  an exact rational multiply-divide with reduction via the greatest common divisor:
  \<open>num/den\<close> becomes \<open>(num * mul)/(den * div)\<close> in lowest terms.\<close>

definition muldivRational :: "int \<times> int \<Rightarrow> int \<Rightarrow> int \<Rightarrow> int \<times> int" where
  "muldivRational r mul dv =
     (let a = fst r * mul; b = snd r * dv; g = gcd a b
      in (a div g, b div g))"

subsection \<open>The instance data\<close>

record RIFEData =
  numFrames :: int          \<comment> \<open>\<^verbatim>\<open>vi.numFrames\<close>: the output length once construction is over\<close>
  fpsNum :: int
  fpsDen :: int
  multiplier :: int
  divisor :: int
  sceneChange :: bool
  skip :: bool
  skip_threshold :: real
  semaphore :: nat          \<comment> \<open>initial count of the counting semaphore\<close>

subsection \<open>The frame callback\<close>

text \<open>The two clips a request can go to: \<^verbatim>\<open>d->node\<close> and \<^verbatim>\<open>d->psnr\<close>.\<close>

datatype node = Node | Psnr

text \<open>\<^verbatim>\<open>frameNum\<close> and \<^verbatim>\<open>remainder\<close>, lines 79 and 81.\<close>

definition frameNum :: "RIFEData \<Rightarrow> int \<Rightarrow> int" where
  "frameNum d n = c_div (i32_mul n (divisor d)) (multiplier d)"

definition remainder :: "RIFEData \<Rightarrow> int \<Rightarrow> int" where
  "remainder d n = c_rem (i32_mul n (divisor d)) (multiplier d)"

text \<open>The guard of lines 85 and 97: should the frame be interpolated and can it be.\<close>

definition interpolate :: "RIFEData \<Rightarrow> int \<Rightarrow> bool" where
  "interpolate d n = (remainder d n \<noteq> 0 \<and> n < i32_sub (numFrames d) (multiplier d))"

text \<open>Activation reason \<^verbatim>\<open>arInitial\<close>: the requests, in the order they are issued.\<close>

definition rifeGetFrame_initial :: "RIFEData \<Rightarrow> int \<Rightarrow> (node \<times> int) list" where
  "rifeGetFrame_initial d n =
     [(Node, frameNum d n)]
     @ (if interpolate d n then [(Node, i32_add (frameNum d n) 1)] else [])
     @ (if skip d then [(Psnr, frameNum d n)] else [])"

text \<open>The time step handed to the engine on line 116.\<close>

definition timestep :: "RIFEData \<Rightarrow> int \<Rightarrow> real" where
  "timestep d n = b32_div (b32_of_int (remainder d n)) (b32_of_int (multiplier d))"

text \<open>Lines 123 to 131: both duration properties are rewritten when both can be read.\<close>

definition rescale_duration :: "RIFEData \<Rightarrow> 'p frame \<Rightarrow> 'p frame" where
  "rescale_duration d dst =
     (let (durationNum, errNum) = mapGetInt (props dst) ''_DurationNum'';
          (durationDen, errDen) = mapGetInt (props dst) ''_DurationDen''
      in if \<not> errNum \<and> \<not> errDen then
           (let (num', den') = muldivRational (durationNum, durationDen) (divisor d) (multiplier d)
            in dst \<lparr> props := mapSetInt (mapSetInt (props dst) ''_DurationNum'' num') ''_DurationDen'' den' \<rparr>)
         else dst)"

text \<open>What one resumed call did: the frames it took from the host, the arguments of
  the engine call if there was one, and the frame it returned.\<close>

record 'p produced =
  got :: "(node \<times> int) list"
  engine :: "('p \<times> 'p \<times> real) option"
  dst :: "'p frame"

datatype fatal = PropertyReadFailed

text \<open>Activation reason \<^verbatim>\<open>arAllFramesReady\<close>, lines 91 to 136. \<open>process\<close> is the engine,
  \<open>src\<close> and \<open>met\<close> are the frames of \<^verbatim>\<open>d->node\<close> and \<^verbatim>\<open>d->psnr\<close>.\<close>

definition rifeGetFrame_ready ::
  "('p \<Rightarrow> 'p \<Rightarrow> real \<Rightarrow> 'p) \<Rightarrow> (int \<Rightarrow> 'p frame) \<Rightarrow> (int \<Rightarrow> 'p frame) \<Rightarrow> RIFEData \<Rightarrow> int
     \<Rightarrow> fatal + 'p produced" where
  "rifeGetFrame_ready process src met d n =
     (let src0 = src (frameNum d n) in
      if interpolate d n then
        (let sc = (sceneChange d \<and> fst (mapGetInt (props src0) ''_SceneChangeNext'') \<noteq> 0) in
         case (if skip d then mapGetFloat (props (met (frameNum d n))) ''psnr_y'' else Some (- 1)) of
           None \<Rightarrow> Inl PropertyReadFailed
         | Some psnr_y \<Rightarrow>
             if sc \<or> psnr_y \<ge> skip_threshold d then
               Inr \<lparr> got = (Node, frameNum d n) # (if skip d then [(Psnr, frameNum d n)] else []),
                     engine = None,
                     dst = rescale_duration d (copyFrame src0) \<rparr>
             else
               (let src1 = src (i32_add (frameNum d n) 1);
                    t = timestep d n
                in Inr \<lparr> got = (Node, frameNum d n) # (if skip d then [(Psnr, frameNum d n)] else [])
                               @ [(Node, i32_add (frameNum d n) 1)],
                         engine = Some (pixels src0, pixels src1, t),
                         dst = rescale_duration d
                                 (newVideoFrame (process (pixels src0) (pixels src1) t) src0) \<rparr>))
      else
        Inr \<lparr> got = [(Node, frameNum d n)],
              engine = None,
              dst = rescale_duration d (copyFrame src0) \<rparr>)"

text \<open>Whether a resumed call went to the engine.\<close>

datatype decision = PASSTHROUGH | SYNTHESIZE

definition decision_of :: "'p produced \<Rightarrow> decision" where
  "decision_of r = (case engine r of None \<Rightarrow> PASSTHROUGH | Some _ \<Rightarrow> SYNTHESIZE)"

subsection \<open>Construction\<close>

datatype color_family = cfUndefined | cfGray | cfRGB | cfYUV

datatype sample_type = stInteger | stFloat

text \<open>The input clip's \<^verbatim>\<open>VSVideoInfo\<close>.\<close>

record video_info =
  vi_colorFamily :: color_family
  vi_sampleType :: sample_type
  vi_bitsPerSample :: int
  vi_fpsNum :: int
  vi_fpsDen :: int
  vi_width :: int
  vi_height :: int
  vi_numFrames :: int

text \<open>\<^verbatim>\<open>vsh::isConstantVideoFormat\<close> of the host's helper header.\<close>

definition isConstantVideoFormat :: "video_info \<Rightarrow> bool" where
  "isConstantVideoFormat vi =
     (vi_height vi > 0 \<and> vi_width vi > 0 \<and> vi_colorFamily vi \<noteq> cfUndefined)"

text \<open>The argument map \<^verbatim>\<open>in\<close>: an absent key is \<open>None\<close>.\<close>

record args =
  in_clip :: video_info
  in_model :: "int option"
  in_multiplier :: "int option"
  in_divisor :: "int option"
  in_model_path :: "string option"
  in_gpu_id :: "int option"
  in_gpu_thread :: "int option"
  in_tta :: "int option"
  in_uhd :: "int option"
  in_sc :: "int option"
  in_skip :: "int option"
  in_skip_threshold :: "real option"
  in_list_gpu :: "int option"

text \<open>What construction sees of the machine and of the host.\<close>

record env =
  create_gpu_instance :: int              \<comment> \<open>nonzero on failure\<close>
  get_default_gpu_index :: int
  get_gpu_count :: int
  compute_queue_count :: "int \<Rightarrow> nat"     \<comment> \<open>per device, a \<^verbatim>\<open>uint32_t\<close>\<close>
  plugin_path :: string
  file_opens :: "string \<Rightarrow> bool"          \<comment> \<open>whether the \<^verbatim>\<open>ifstream\<close> opens\<close>
  vmaf_plugin :: bool                     \<comment> \<open>whether \<^verbatim>\<open>com.holywu.vmaf\<close> is loaded\<close>
  invoke_error :: "string \<Rightarrow> string option" \<comment> \<open>the error, if any, of invoking the named function\<close>

text \<open>\<^verbatim>\<open>mapGetIntSaturated\<close> clamps the stored 64-bit value to the range of \<^verbatim>\<open>int\<close>; the
  second argument is the value the source assigns when the key is absent.\<close>

definition mapGetIntSaturated :: "int option \<Rightarrow> int \<Rightarrow> int" where
  "mapGetIntSaturated v dflt =
     (case v of None \<Rightarrow> dflt | Some x \<Rightarrow> max INT_MIN (min INT_MAX x))"

text \<open>\<^verbatim>\<open>!!mapGetInt(in, key, 0, &err)\<close>.\<close>

definition mapGetBool :: "int option \<Rightarrow> bool" where
  "mapGetBool v = (case v of None \<Rightarrow> False | Some x \<Rightarrow> x \<noteq> 0)"

text \<open>\<^verbatim>\<open>pluginPath.substr(0, pluginPath.rfind('/'))\<close>: the whole string when there is no
  slash.\<close>

definition dir_of :: "string \<Rightarrow> string" where
  "dir_of p =
     (if CHR ''/'' \<in> set p then rev (tl (dropWhile (\<lambda>c. c \<noteq> CHR ''/'') (rev p))) else p)"

text \<open>The \<^verbatim>\<open>switch\<close> over the model number, lines 260 to 291.\<close>

definition model_dir :: "int \<Rightarrow> string" where
  "model_dir m =
     (if m = 0 then ''/rife''
      else if m = 1 then ''/rife-HD''
      else if m = 2 then ''/rife-UHD''
      else if m = 3 then ''/rife-anime''
      else if m = 4 then ''/rife-v2''
      else if m = 5 then ''/rife-v2.3''
      else if m = 6 then ''/rife-v2.4''
      else if m = 7 then ''/rife-v3.0''
      else if m = 8 then ''/rife-v3.1''
      else if m = 9 then ''/rife-v4''
      else [])"

text \<open>\<^verbatim>\<open>s.find(sub) != npos\<close>.\<close>

fun str_find :: "string \<Rightarrow> string \<Rightarrow> bool" where
  "str_find [] sub = (sub = [])"
| "str_find (c # cs) sub = (prefix sub (c # cs) \<or> str_find cs sub)"

datatype create_error =
    UnsupportedFormat        \<comment> \<open>only constant RGB format 32 bit float input supported\<close>
  | GpuInstanceFailed        \<comment> \<open>failed to create GPU instance\<close>
  | BadModel                 \<comment> \<open>model must be between 0 and 9 (inclusive)\<close>
  | BadMultiplier            \<comment> \<open>multiplier must be greater than 1\<close>
  | BadDivisor               \<comment> \<open>divisor must be greater than 0\<close>
  | InvalidGpu               \<comment> \<open>invalid GPU device\<close>
  | BadGpuThread nat         \<comment> \<open>gpu\_thread must be between 1 and the queue count (inclusive)\<close>
  | BadSkipThreshold         \<comment> \<open>skip\_threshold must be between 0.0 and 60.0 (inclusive)\<close>
  | ClipTooShort             \<comment> \<open>clip's number of frames must be at least 2\<close>
  | ClipTooLong              \<comment> \<open>resulting clip is too long\<close>
  | ModelLoadFailed          \<comment> \<open>failed to load model\<close>
  | UnknownModelDir          \<comment> \<open>unknown model dir type\<close>
  | CustomMultiplier         \<comment> \<open>only rife-v4 model supports custom multiplier\<close>
  | TtaUnsupported           \<comment> \<open>rife-v4 model does not support TTA mode\<close>
  | VmafRequired             \<comment> \<open>VMAF plugin is required when skip=True\<close>
  | InvokeFailed string      \<comment> \<open>the error of an invoked function, passed on\<close>

datatype created =
    Failed create_error
  | GpuList                  \<comment> \<open>\<^verbatim>\<open>list_gpu\<close>: the clip with the device list, no filter\<close>
  | Filter RIFEData

text \<open>The chain of invocations that builds \<^verbatim>\<open>d->psnr\<close>, lines 332 to 391: the first
  error ends construction.\<close>

fun invoke_chain :: "(string \<Rightarrow> string option) \<Rightarrow> string list \<Rightarrow> string option" where
  "invoke_chain err [] = None"
| "invoke_chain err (f # fs) = (case err f of Some e \<Rightarrow> Some e | None \<Rightarrow> invoke_chain err fs)"

text \<open>The arguments as the source reads them, lines 170 to 200, with the defaults it
  assigns when a key is absent.\<close>

definition arg_model :: "args \<Rightarrow> int" where
  "arg_model a = mapGetIntSaturated (in_model a) 5"

definition arg_multiplier :: "args \<Rightarrow> int" where
  "arg_multiplier a = mapGetIntSaturated (in_multiplier a) 2"

definition arg_divisor :: "args \<Rightarrow> int" where
  "arg_divisor a = mapGetIntSaturated (in_divisor a) 1"

definition arg_gpuId :: "env \<Rightarrow> args \<Rightarrow> int" where
  "arg_gpuId e a = mapGetIntSaturated (in_gpu_id a) (get_default_gpu_index e)"

definition arg_gpuThread :: "args \<Rightarrow> int" where
  "arg_gpuThread a = mapGetIntSaturated (in_gpu_thread a) 2"

definition arg_skip_threshold :: "args \<Rightarrow> real" where
  "arg_skip_threshold a = (case in_skip_threshold a of None \<Rightarrow> 60 | Some t \<Rightarrow> t)"

text \<open>The range checks of lines 202 to 224, in order; \<open>None\<close> when none throws.\<close>

definition check_ranges :: "env \<Rightarrow> args \<Rightarrow> create_error option" where
  "check_ranges e a =
     (if arg_model a < 0 \<or> arg_model a > 9 then Some BadModel
      else if arg_multiplier a < 2 then Some BadMultiplier
      else if arg_divisor a < 1 then Some BadDivisor
      else if arg_gpuId e a < 0 \<or> arg_gpuId e a \<ge> get_gpu_count e then Some InvalidGpu
      else if arg_gpuThread a < 1 \<or> nat (arg_gpuThread a) > compute_queue_count e (arg_gpuId e a)
        then Some (BadGpuThread (compute_queue_count e (arg_gpuId e a)))
      else if arg_skip_threshold a < 0 \<or> arg_skip_threshold a > 60 then Some BadSkipThreshold
      else if vi_numFrames (in_clip a) < 2 then Some ClipTooShort
      else if c_div (vi_numFrames (in_clip a)) (arg_divisor a) > c_div INT_MAX (arg_multiplier a)
        then Some ClipTooLong
      else None)"

text \<open>The model directory, lines 183 and 256 to 292.\<close>

definition modelPath :: "env \<Rightarrow> args \<Rightarrow> string" where
  "modelPath e a =
     (let given = (case in_model_path a of None \<Rightarrow> [] | Some p \<Rightarrow> p)
      in if given = [] then dir_of (plugin_path e) @ ''/models'' @ model_dir (arg_model a)
         else given)"

text \<open>The flag \<^verbatim>\<open>rife_v4\<close> of lines 299 to 309.\<close>

definition rife_v4 :: "string \<Rightarrow> bool" where
  "rife_v4 p = (\<not> str_find p ''rife-v2'' \<and> \<not> str_find p ''rife-v3'' \<and> str_find p ''rife-v4'')"

text \<open>The model checks of lines 294 to 315.\<close>

definition check_model :: "env \<Rightarrow> args \<Rightarrow> create_error option" where
  "check_model e a =
     (let p = modelPath e a in
      if \<not> file_opens e (p @ ''/flownet.param'') then Some ModelLoadFailed
      else if \<not> str_find p ''rife-v2'' \<and> \<not> str_find p ''rife-v3'' \<and>
              \<not> str_find p ''rife-v4'' \<and> \<not> str_find p ''rife'' then Some UnknownModelDir
      else if \<not> rife_v4 p \<and> (arg_multiplier a \<noteq> 2 \<or> arg_divisor a \<noteq> 1) then Some CustomMultiplier
      else if rife_v4 p \<and> mapGetBool (in_tta a) then Some TtaUnsupported
      else None)"

text \<open>Building \<^verbatim>\<open>d->psnr\<close>, lines 319 to 396.\<close>

definition make_psnr :: "env \<Rightarrow> args \<Rightarrow> create_error option" where
  "make_psnr e a =
     (if mapGetBool (in_skip a) then
        (if \<not> vmaf_plugin e then Some VmafRequired
         else map_option InvokeFailed
                (invoke_chain (invoke_error e) [''Bicubic'', ''DuplicateFrames'', ''Trim'', ''Metric'']))
      else None)"

text \<open>Lines 398 and 399 and the fields set on the way.\<close>

definition make_data :: "args \<Rightarrow> RIFEData" where
  "make_data a =
     (let vi = in_clip a;
          fps = muldivRational (vi_fpsNum vi, vi_fpsDen vi) (arg_multiplier a) (arg_divisor a)
      in \<lparr> numFrames = c_div (i32_mul (vi_numFrames vi) (arg_multiplier a)) (arg_divisor a),
           fpsNum = fst fps, fpsDen = snd fps,
           multiplier = arg_multiplier a, divisor = arg_divisor a,
           sceneChange = mapGetBool (in_sc a), skip = mapGetBool (in_skip a),
           skip_threshold = arg_skip_threshold a,
           semaphore = nat (arg_gpuThread a) \<rparr>)"

definition rifeCreate :: "env \<Rightarrow> args \<Rightarrow> created" where
  "rifeCreate e a =
     (let vi = in_clip a in
      if \<not> isConstantVideoFormat vi \<or> vi_colorFamily vi \<noteq> cfRGB \<or>
         vi_sampleType vi \<noteq> stFloat \<or> vi_bitsPerSample vi \<noteq> 32 then Failed UnsupportedFormat
      else if create_gpu_instance e \<noteq> 0 then Failed GpuInstanceFailed
      else
        (case check_ranges e a of
           Some err \<Rightarrow> Failed err
         | None \<Rightarrow>
            (if mapGetBool (in_list_gpu a) then
               (case invoke_error e ''Text'' of
                  Some err \<Rightarrow> Failed (InvokeFailed err)
                | None \<Rightarrow> GpuList)
             else
               (case check_model e a of
                  Some err \<Rightarrow> Failed err
                | None \<Rightarrow>
                   (case make_psnr e a of
                      Some err \<Rightarrow> Failed err
                    | None \<Rightarrow> Filter (make_data a))))))"

subsection \<open>The semaphore around the engine call\<close>

text \<open>\<^verbatim>\<open>filter\<close>, lines 69 to 71, is three statements: \<^verbatim>\<open>acquire\<close>, the engine's
  \<^verbatim>\<open>process\<close>, \<^verbatim>\<open>release\<close>. A thread running it is before the first, inside the
  second, before the third, or back in its caller. The engine's outcome is carried
  along; the source discards it.\<close>

datatype pc = AtAcquire | InProcess | AtRelease bool | Returned bool

record gate =
  tokens :: nat
  threads :: "pc list"

text \<open>One step of thread \<open>i\<close>; \<open>ok\<close> tells how the engine call ends if this step is its
  return. \<^verbatim>\<open>acquire\<close> on an empty semaphore blocks: the thread stays where it is.\<close>

definition filter_step :: "gate \<Rightarrow> nat \<times> bool \<Rightarrow> gate" where
  "filter_step g s =
     (let i = fst s; ok = snd s in
      if i < length (threads g) then
        (case threads g ! i of
           AtAcquire \<Rightarrow>
             if 0 < tokens g
             then g \<lparr> tokens := tokens g - 1, threads := (threads g)[i := InProcess] \<rparr>
             else g
         | InProcess \<Rightarrow> g \<lparr> threads := (threads g)[i := AtRelease ok] \<rparr>
         | AtRelease r \<Rightarrow> g \<lparr> tokens := tokens g + 1, threads := (threads g)[i := Returned r] \<rparr>
         | Returned r \<Rightarrow> g)
      else g)"

text \<open>A schedule is the order in which the threads take their steps.\<close>

definition run_filter :: "gate \<Rightarrow> (nat \<times> bool) list \<Rightarrow> gate" where
  "run_filter g sched = foldl filter_step g sched"

text \<open>\<open>k\<close> calls of \<^verbatim>\<open>filter\<close> on a freshly constructed instance (line 317).\<close>

definition gate_init :: "RIFEData \<Rightarrow> nat \<Rightarrow> gate" where
  "gate_init d k = \<lparr> tokens = semaphore d, threads = replicate k AtAcquire \<rparr>"

fun in_process :: "pc \<Rightarrow> nat" where
  "in_process InProcess = 1"
| "in_process _ = 0"

fun holds_token :: "pc \<Rightarrow> nat" where
  "holds_token InProcess = 1"
| "holds_token (AtRelease _) = 1"
| "holds_token _ = 0"

fun has_returned :: "pc \<Rightarrow> bool" where
  "has_returned (Returned _) = True"
| "has_returned _ = False"

definition in_flight :: "gate \<Rightarrow> nat" where
  "in_flight g = sum_list (map in_process (threads g))"

definition held :: "gate \<Rightarrow> nat" where
  "held g = sum_list (map holds_token (threads g))"

definition all_returned :: "gate \<Rightarrow> bool" where
  "all_returned g = list_all has_returned (threads g)"

subsection \<open>Sample configurations\<close>

text \<open>A machine with one GPU of four compute queues, every model file present and the
  VMAF plugin loaded.\<close>

definition one_gpu :: env where
  "one_gpu = \<lparr> create_gpu_instance = 0, get_default_gpu_index = 0, get_gpu_count = 1,
               compute_queue_count = (\<lambda>_. 4),
               plugin_path = ''/usr/lib/vapoursynth/librife.so'',
               file_opens = (\<lambda>_. True), vmaf_plugin = True, invoke_error = (\<lambda>_. None) \<rparr>"

text \<open>A 1920x1080 RGB float clip at 24 fps of the given length.\<close>

definition rgbs_clip :: "int \<Rightarrow> video_info" where
  "rgbs_clip len = \<lparr> vi_colorFamily = cfRGB, vi_sampleType = stFloat, vi_bitsPerSample = 32,
                     vi_fpsNum = 24, vi_fpsDen = 1, vi_width = 1920, vi_height = 1080,
                     vi_numFrames = len \<rparr>"

text \<open>\<^verbatim>\<open>RIFE(clip, model=9, multiplier=m, divisor=dv, sc=sc, skip=sk)\<close>.\<close>

definition rife_args :: "int \<Rightarrow> int \<Rightarrow> int \<Rightarrow> bool \<Rightarrow> bool \<Rightarrow> args" where
  "rife_args len m dv sc sk =
     \<lparr> in_clip = rgbs_clip len, in_model = Some 9, in_multiplier = Some m, in_divisor = Some dv,
       in_model_path = None, in_gpu_id = None, in_gpu_thread = None, in_tta = None,
       in_uhd = None, in_sc = Some (if sc then 1 else 0), in_skip = Some (if sk then 1 else 0),
       in_skip_threshold = None, in_list_gpu = None \<rparr>"

text \<open>Source frames numbered by their pixel data, each lasting 1/24 s; the frames in
  \<open>flagged\<close> carry both scene-change properties, the others none.\<close>

definition numbered :: "int set \<Rightarrow> int \<Rightarrow> int frame" where
  "numbered flagged i =
     \<lparr> pixels = i,
       props = (if i \<in> flagged
                then [''_DurationNum'' \<mapsto> PInt 1, ''_DurationDen'' \<mapsto> PInt 24,
                      ''_SceneChangeNext'' \<mapsto> PInt 1, ''_SceneChangePrev'' \<mapsto> PInt 1]
                else [''_DurationNum'' \<mapsto> PInt 1, ''_DurationDen'' \<mapsto> PInt 24]) \<rparr>"

text \<open>Metric frames that all carry the same score.\<close>

definition scored :: "real \<Rightarrow> int \<Rightarrow> int frame" where
  "scored v i = \<lparr> pixels = i, props = [''psnr_y'' \<mapsto> PFloat v] \<rparr>"

text \<open>A stand-in for the engine that records what it was given.\<close>

definition blend :: "int \<Rightarrow> int \<Rightarrow> real \<Rightarrow> int" where
  "blend p q t = 1000 + 10 * p + q"

section \<open>Properties\<close>

subsection \<open>Integer arithmetic\<close>

lemma wrap32_id: "in_i32 x \<Longrightarrow> wrap32 x = x"
  by (simp add: in_i32_def wrap32_def INT_MIN_def INT_MAX_def)

lemma wrap32_range: "in_i32 (wrap32 x)"
proof -
  have "0 \<le> (x + 2147483648) mod 4294967296" "(x + 2147483648) mod 4294967296 < 4294967296"
    by simp_all
  then show ?thesis
    unfolding in_i32_def wrap32_def INT_MIN_def INT_MAX_def by linarith
qed

lemma wrap32_le: "0 \<le> x \<Longrightarrow> wrap32 x \<le> x"
proof (cases "in_i32 x")
  case True then show ?thesis by (simp add: wrap32_id)
next
  case False
  assume "0 \<le> x"
  with False have "INT_MAX < x" by (simp add: in_i32_def INT_MIN_def)
  moreover have "wrap32 x \<le> INT_MAX" using wrap32_range [of x] by (simp add: in_i32_def)
  ultimately show ?thesis by linarith
qed

lemma c_div_nonneg: "0 \<le> a \<Longrightarrow> 0 < b \<Longrightarrow> c_div a b = a div b"
  by (cases "a = 0") (simp_all add: c_div_def)

lemma c_rem_nonneg: "0 \<le> a \<Longrightarrow> 0 < b \<Longrightarrow> c_rem a b = a mod b"
  by (simp add: c_rem_def c_div_nonneg minus_mult_div_eq_mod)

lemma c_div_pos_imp:
  assumes "0 < c_div a b" and "0 < b"
  shows "0 < a"
proof (rule ccontr)
  assume "\<not> 0 < a"
  then have "sgn a \<le> 0" by (simp add: sgn_if)
  moreover have "0 \<le> \<bar>a\<bar> div \<bar>b\<bar>" by (simp add: div_int_pos_iff)
  ultimately have "sgn a * (\<bar>a\<bar> div \<bar>b\<bar>) \<le> 0" by (simp add: mult_le_0_iff)
  with assms show False by (simp add: c_div_def)
qed

lemma below_count:
  fixes W dv n :: int
  assumes "1 \<le> dv" and "0 \<le> n" and "n < c_div W dv"
  shows "(n + 1) * dv \<le> W"
proof -
  from assms have "0 < c_div W dv" by simp
  with assms have "0 < W" using c_div_pos_imp [of W dv] by simp
  with assms have "c_div W dv = W div dv" by (simp add: c_div_nonneg)
  with assms have "n + 1 \<le> W div dv" by simp
  with assms have "(n + 1) * dv \<le> (W div dv) * dv" by (simp add: mult_right_mono)
  moreover have "W = W div dv * dv + W mod dv" by simp
  moreover have "0 \<le> W mod dv" using assms by simp
  ultimately show ?thesis by linarith
qed

subsection \<open>Rounding to single precision\<close>

lemma round_half_even_mult:
  assumes "0 < c"
  shows "round_half_even (m * c) c = m"
  using assms by (simp add: round_half_even_def)

lemma round_half_even_lower: "a div c \<le> round_half_even a c"
  by (simp add: round_half_even_def Let_def)

lemma round_half_even_upper: "round_half_even a c \<le> a div c + 1"
  by (simp add: round_half_even_def Let_def)

lemma round_half_even_mono:
  assumes "0 < c" and "a \<le> a'"
  shows "round_half_even a c \<le> round_half_even a' c"
proof (cases "a div c = a' div c")
  case True
  have "a mod c = a - a div c * c" "a' mod c = a' - a' div c * c"
    by (simp_all add: minus_div_mult_eq_mod)
  with True assms(2) have "a mod c \<le> a' mod c" by simp
  then show ?thesis using True by (auto simp: round_half_even_def Let_def)
next
  case False
  moreover have "a div c \<le> a' div c" using assms by (simp add: zdiv_mono1)
  ultimately have "a div c + 1 \<le> a' div c" by simp
  with round_half_even_upper [of a c] round_half_even_lower [of a' c]
  show ?thesis by linarith
qed

lemma round_half_even_le:
  assumes "0 < c" and "a \<le> m * c"
  shows "round_half_even a c \<le> m"
  using round_half_even_mono [OF assms] assms(1) by (simp add: round_half_even_mult)

lemma round_half_even_ge:
  assumes "0 < c" and "m * c \<le> a"
  shows "m \<le> round_half_even a c"
  using round_half_even_mono [OF assms] assms(1) by (simp add: round_half_even_mult)

lemma round_half_even_error:
  assumes "0 < c"
  shows "2 * \<bar>round_half_even a c * c - a\<bar> \<le> c"
proof -
  have a: "a div c * c - a = - (a mod c)"
    by (simp add: minus_div_mult_eq_mod [symmetric])
  have r: "0 \<le> a mod c" "a mod c < c" using assms by simp_all
  show ?thesis
  proof (cases "2 * (a mod c) < c \<or> (2 * (a mod c) = c \<and> even (a div c))")
    case True
    then have "round_half_even a c = a div c" by (simp add: round_half_even_def Let_def)
    then have "round_half_even a c * c - a = - (a mod c)" using a by simp
    with True r show ?thesis by auto
  next
    case False
    then have "round_half_even a c = a div c + 1" by (simp add: round_half_even_def Let_def)
    then have "round_half_even a c * c - a = (a div c * c - a) + c" by (simp add: algebra_simps)
    then have "round_half_even a c * c - a = c - a mod c" using a by simp
    with False r show ?thesis by auto
  qed
qed

lemma bitlen_nat:
  assumes "0 < x"
  obtains L where "bitlen x = int L" and "1 \<le> L" and "2 ^ (L - 1) \<le> x" and "x < 2 ^ L"
proof -
  from assms have pos: "1 \<le> bitlen x" by (auto simp: bitlen_alt_def)
  define L where "L = nat (bitlen x)"
  have 1: "bitlen x = int L" and 2: "1 \<le> L" using pos by (simp_all add: L_def)
  have "nat (bitlen x - 1) = L - 1" using pos by (simp add: L_def nat_diff_distrib)
  with bitlen_bounds [OF assms] have "2 ^ (L - 1) \<le> x" and "x < 2 ^ L" by (simp_all add: L_def)
  with 1 2 show thesis by (rule that)
qed

lemma bitlen_le:
  assumes "0 < x" and "x < 2 ^ p"
  shows "bitlen x \<le> int p"
proof -
  from assms(1) obtain L where L: "bitlen x = int L" "1 \<le> L" "2 ^ (L - 1) \<le> x" by (rule bitlen_nat)
  with assms(2) have "(2::int) ^ (L - 1) < 2 ^ p" by linarith
  then have "L - 1 < p" by (simp add: power_strict_increasing_iff)
  with L show ?thesis by simp
qed

lemma bitlen_mono:
  assumes "0 < a" and "a \<le> b"
  shows "bitlen a \<le> bitlen b"
proof -
  from assms have "0 < b" by simp
  then obtain L where L: "bitlen b = int L" "b < 2 ^ L" by (rule bitlen_nat)
  with assms have "a < 2 ^ L" by simp
  with assms(1) have "bitlen a \<le> int L" by (rule bitlen_le)
  with L show ?thesis by simp
qed

lemma b32_of_int_exact:
  assumes "0 \<le> k" and "k < 2 ^ 24"
  shows "b32_of_int k = k"
proof (cases "k = 0")
  case True
  then show ?thesis by (simp add: b32_of_int_def)
next
  case False
  with assms have "bitlen k \<le> int 24" by (intro bitlen_le) simp_all
  then show ?thesis using assms by (simp add: b32_of_int_def)
qed

text \<open>The shape of a cast that rounds.\<close>

lemma b32_of_int_rounds:
  assumes "0 < k" and "bitlen k = 24 + int p" and "0 < p"
  shows "b32_of_int k = round_half_even k (2 ^ p) * 2 ^ p"
    and "2 ^ 23 * 2 ^ p \<le> b32_of_int k" and "b32_of_int k \<le> 2 ^ 24 * 2 ^ p"
    and "k < 2 ^ 24 * 2 ^ p"
proof -
  have u: "nat (bitlen k - 24) = p" "\<not> bitlen k \<le> 24" using assms by simp_all
  show eq: "b32_of_int k = round_half_even k (2 ^ p) * 2 ^ p"
    using assms(1) by (simp add: b32_of_int_def Let_def u)
  from assms(1) obtain L where L: "bitlen k = int L" "2 ^ (L - 1) \<le> k" "k < 2 ^ L"
    by (rule bitlen_nat)
  with assms(2) have "L = 24 + p" by simp
  with L have lo: "2 ^ 23 * 2 ^ p \<le> k" and hi: "k \<le> 2 ^ 24 * 2 ^ p" and "k < 2 ^ 24 * 2 ^ p"
    by (simp_all add: power_add)
  then show "k < 2 ^ 24 * 2 ^ p" by simp
  have c: "(0::int) < 2 ^ p" by simp
  from round_half_even_ge [OF c lo] round_half_even_le [OF c hi]
  show "2 ^ 23 * 2 ^ p \<le> b32_of_int k" and "b32_of_int k \<le> 2 ^ 24 * 2 ^ p"
    unfolding eq by simp_all
qed

lemma b32_of_int_cases:
  assumes "0 < k"
  obtains (exact) "k < 2 ^ 24" and "b32_of_int k = k"
  | (rounds) p where "0 < p" and "bitlen k = 24 + int p"
proof (cases "bitlen k \<le> 24")
  case True
  from assms obtain L where L: "bitlen k = int L" "k < 2 ^ L" by (rule bitlen_nat)
  with True have "L \<le> 24" by simp
  then have "(2::int) ^ L \<le> 2 ^ 24" by (intro power_increasing) simp_all
  with L have lt: "k < 2 ^ 24" by linarith
  with assms have "b32_of_int k = k" by (intro b32_of_int_exact) simp_all
  with lt show thesis by (rule exact)
next
  case False
  define p where "p = nat (bitlen k - 24)"
  with False have "0 < p" and "bitlen k = 24 + int p" by simp_all
  then show thesis by (rule rounds)
qed

lemma b32_of_int_pos:
  assumes "0 < k"
  shows "0 < b32_of_int k"
  using assms
proof (cases k rule: b32_of_int_cases)
  case exact
  with assms show ?thesis by simp
next
  case (rounds p)
  have "(0::int) < 2 ^ 23 * 2 ^ p" by simp
  with b32_of_int_rounds(2) [OF assms rounds(2,1)] show ?thesis by linarith
qed

lemma b32_of_int_mono:
  assumes "0 < a" and "a \<le> b"
  shows "b32_of_int a \<le> b32_of_int b"
proof -
  from assms have b: "0 < b" by simp
  show ?thesis
    using b
  proof (cases b rule: b32_of_int_cases)
    case exact
    with assms have "a < 2 ^ 24" by simp
    with assms(1) have "b32_of_int a = a" by (intro b32_of_int_exact) simp_all
    with exact assms show ?thesis by simp
  next
    case (rounds q)
    note rb = b32_of_int_rounds [OF b rounds(2,1)]
    show ?thesis
      using assms(1)
    proof (cases a rule: b32_of_int_cases)
      case exact
      have "(2::int) ^ 24 = 2 ^ 23 * 2 ^ 1" by simp
      also have "\<dots> \<le> 2 ^ 23 * 2 ^ q" using rounds(1) by (intro mult_left_mono power_increasing) simp_all
      finally show ?thesis using exact rb(2) by linarith
    next
      case (rounds p)
      note ra = b32_of_int_rounds [OF assms(1) rounds(2,1)]
      from bitlen_mono [OF assms] rounds(2) \<open>bitlen b = 24 + int q\<close> have pq: "p \<le> q" by simp
      show ?thesis
      proof (cases "p = q")
        case True
        have "round_half_even a (2 ^ q) \<le> round_half_even b (2 ^ q)"
          using assms(2) by (intro round_half_even_mono) simp_all
        then show ?thesis unfolding ra(1) rb(1) True by simp
      next
        case False
        with pq have "Suc p \<le> q" by simp
        then have "(2::int) ^ Suc p \<le> 2 ^ q" by (intro power_increasing) simp_all
        then have "(2::int) ^ 24 * 2 ^ p \<le> 2 ^ 23 * 2 ^ q" by simp
        with ra(3) rb(2) show ?thesis by linarith
      qed
    qed
  qed
qed

text \<open>The shape of a quotient that is at most 1.\<close>

lemma b32_div_shape:
  assumes "0 < a" and "a \<le> b"
  obtains s where "23 \<le> s" and "a = b \<or> 24 \<le> s" and "b \<le> a * 2 ^ s"
    and "b32_div a b = real_of_int (round_half_even (a * 2 ^ s) b) / 2 ^ s"
proof -
  from assms have b: "0 < b" by simp
  from assms(1) obtain La where La: "bitlen a = int La" "1 \<le> La" "2 ^ (La - 1) \<le> a" "a < 2 ^ La"
    by (rule bitlen_nat)
  from b obtain Lb where Lb: "bitlen b = int Lb" "1 \<le> Lb" "2 ^ (Lb - 1) \<le> b" "b < 2 ^ Lb"
    by (rule bitlen_nat)
  from bitlen_mono [OF assms] La(1) Lb(1) have le: "La \<le> Lb" by simp
  define t where "t = (if b \<le> a * 2 ^ (Lb - La) then Lb - La else Lb - La + 1)"
  have k: "nat (int La - int Lb) = 0" "nat (int Lb - int La) = Lb - La"
    using le by (simp_all add: nat_diff_distrib)
  have e: "b32_exponent a b = - int t"
    using le by (simp add: b32_exponent_def Let_def La(1) Lb(1) k t_def)
  have E3: "b \<le> a * 2 ^ t"
  proof (cases "b \<le> a * 2 ^ (Lb - La)")
    case True
    then show ?thesis by (simp add: t_def)
  next
    case False
    have "Lb = (La - 1) + (Lb - La + 1)" using le La(2) by arith
    then have "(2::int) ^ Lb = 2 ^ ((La - 1) + (Lb - La + 1))" by simp
    also have "\<dots> = 2 ^ (La - 1) * 2 ^ (Lb - La + 1)" by (rule power_add)
    finally have "(2::int) ^ Lb = 2 ^ (La - 1) * 2 ^ (Lb - La + 1)" .
    also have "\<dots> \<le> a * 2 ^ (Lb - La + 1)" using La(3) by (intro mult_right_mono) simp_all
    finally show ?thesis using Lb(4) False by (simp add: t_def)
  qed
  have E2: "1 \<le> t" if "a < b"
  proof (cases "La = Lb")
    case True
    with that show ?thesis by (simp add: t_def)
  next
    case False
    with le have "1 \<le> Lb - La" by arith
    then show ?thesis by (simp add: t_def)
  qed
  define s where "s = 23 + t"
  have u: "nat (- int t - 23) = 0" "nat (23 + int t) = s" by (simp_all add: s_def nat_add_distrib)
  have "b32_div a b = real_of_int (round_half_even (a * 2 ^ s) b) / 2 ^ s"
    using assms(1) b by (simp add: b32_div_def Let_def e u)
  moreover have "23 \<le> s" by (simp add: s_def)
  moreover have "a = b \<or> 24 \<le> s"
  proof (cases "a < b")
    case True
    from E2 [OF this] show ?thesis by (simp add: s_def)
  next
    case False
    with assms(2) show ?thesis by simp
  qed
  moreover have "b \<le> a * 2 ^ s"
  proof -
    have "a * 2 ^ t * 1 \<le> a * 2 ^ t * 2 ^ 23" using assms(1) by (intro mult_left_mono) simp_all
    with E3 show ?thesis by (simp add: s_def power_add mult.assoc)
  qed
  ultimately show thesis using that by blast
qed

lemma b32_div_unit:
  assumes "0 < a" and "a \<le> b"
  shows "0 < b32_div a b" and "b32_div a b \<le> 1"
proof -
  from assms obtain s where s: "b \<le> a * 2 ^ s"
    and eq: "b32_div a b = real_of_int (round_half_even (a * 2 ^ s) b) / 2 ^ s"
    by (rule b32_div_shape)
  from assms have b: "0 < b" by simp
  from s have "1 * b \<le> a * 2 ^ s" by simp
  from round_half_even_ge [OF b this] have "0 < round_half_even (a * 2 ^ s) b" by simp
  then show "0 < b32_div a b" unfolding eq by simp
  have "a * 2 ^ s \<le> 2 ^ s * b" using assms(2) by (simp add: mult.commute)
  from round_half_even_le [OF b this] have "real_of_int (round_half_even (a * 2 ^ s) b) \<le> 2 ^ s"
    by (metis of_int_le_iff of_int_numeral of_int_power)
  then show "b32_div a b \<le> 1" unfolding eq by simp
qed

lemma b32_div_below:
  assumes "0 < a" and "a < b" and "b \<le> 2 ^ 24"
  shows "b32_div a b < 1"
    and "\<bar>b32_div a b - real_of_int a / real_of_int b\<bar> \<le> 1 / 2 ^ 25"
proof -
  from assms have le: "a \<le> b" and b: "0 < b" by simp_all
  from assms(1) le obtain s where s: "a = b \<or> 24 \<le> s"
    and eq: "b32_div a b = real_of_int (round_half_even (a * 2 ^ s) b) / 2 ^ s"
    by (rule b32_div_shape)
  let ?m = "round_half_even (a * 2 ^ s) b"
  from s assms(2) have s24: "24 \<le> s" by simp
  then have "(2::int) ^ 24 \<le> 2 ^ s" by (intro power_increasing) simp_all
  with assms(3) have bs: "b \<le> 2 ^ s" by simp
  have "a * 2 ^ s \<le> (b - 1) * 2 ^ s" using assms(2) by (intro mult_right_mono) simp_all
  also have "\<dots> = b * 2 ^ s - 2 ^ s" by (simp add: algebra_simps)
  also have "\<dots> \<le> b * 2 ^ s - b" using bs by simp
  also have "\<dots> = (2 ^ s - 1) * b" by (simp add: algebra_simps)
  finally have "?m \<le> 2 ^ s - 1" by (rule round_half_even_le [OF b])
  then have "?m < 2 ^ s" by simp
  then have "real_of_int ?m < 2 ^ s" by (metis of_int_less_iff of_int_numeral of_int_power)
  then show "b32_div a b < 1" unfolding eq by simp
  have P: "(0::real) < 2 ^ s" and B: "0 < real_of_int b" using b by simp_all
  from round_half_even_error [OF b, of "a * 2 ^ s"]
  have "real_of_int (2 * \<bar>?m * b - a * 2 ^ s\<bar>) \<le> real_of_int b" by (simp only: of_int_le_iff)
  then have err: "\<bar>real_of_int ?m * real_of_int b - real_of_int a * 2 ^ s\<bar> \<le> real_of_int b / 2"
    by simp
  have "b32_div a b - real_of_int a / real_of_int b
          = (real_of_int ?m * real_of_int b - real_of_int a * 2 ^ s) / (2 ^ s * real_of_int b)"
    unfolding eq using P B by (simp add: field_simps)
  then have "\<bar>b32_div a b - real_of_int a / real_of_int b\<bar>
          = \<bar>real_of_int ?m * real_of_int b - real_of_int a * 2 ^ s\<bar> / (2 ^ s * real_of_int b)"
    using P B by (simp add: abs_mult)
  also have "\<dots> \<le> (real_of_int b / 2) / (2 ^ s * real_of_int b)"
    using err P B by (intro divide_right_mono) simp_all
  also have "\<dots> = 1 / (2 * 2 ^ s)" using B by simp
  also have "\<dots> \<le> 1 / (2 * 2 ^ 24)"
    using s24 by (intro divide_left_mono mult_left_mono power_increasing) simp_all
  finally show "\<bar>b32_div a b - real_of_int a / real_of_int b\<bar> \<le> 1 / 2 ^ 25" by simp
qed

subsection \<open>What construction guarantees\<close>

lemma mapGetIntSaturated_range: "in_i32 dflt \<Longrightarrow> in_i32 (mapGetIntSaturated v dflt)"
  by (auto simp: mapGetIntSaturated_def in_i32_def INT_MIN_def INT_MAX_def split: option.splits)

lemma rifeCreate_Filter:
  assumes "rifeCreate e a = Filter d"
  shows "d = make_data a" and "check_ranges e a = None" and "check_model e a = None"
  using assms
  by (simp_all add: rifeCreate_def Let_def split: if_splits option.splits)

lemma check_ranges_None:
  assumes "check_ranges e a = None"
  shows "2 \<le> arg_multiplier a" and "1 \<le> arg_divisor a"
    and "2 \<le> vi_numFrames (in_clip a)"
    and "c_div (vi_numFrames (in_clip a)) (arg_divisor a) \<le> c_div INT_MAX (arg_multiplier a)"
    and "0 \<le> arg_skip_threshold a" and "arg_skip_threshold a \<le> 60"
    and "1 \<le> arg_gpuThread a"
  using assms
  by (simp_all add: check_ranges_def split: if_splits)

lemma make_data_simps:
  "multiplier (make_data a) = arg_multiplier a"
  "divisor (make_data a) = arg_divisor a"
  "numFrames (make_data a) = c_div (i32_mul (vi_numFrames (in_clip a)) (arg_multiplier a)) (arg_divisor a)"
  "sceneChange (make_data a) = mapGetBool (in_sc a)"
  "skip (make_data a) = mapGetBool (in_skip a)"
  "skip_threshold (make_data a) = arg_skip_threshold a"
  "semaphore (make_data a) = nat (arg_gpuThread a)"
  by (simp_all add: make_data_def Let_def)

text \<open>Facts about a constructed filter, for requests below its length.\<close>

lemma created_arith:
  assumes "rifeCreate e a = Filter d" and "0 \<le> n" and "n < numFrames d"
  shows "2 \<le> multiplier d" and "1 \<le> divisor d"
    and "(n + 1) * divisor d \<le> wrap32 (vi_numFrames (in_clip a) * multiplier d)"
    and "i32_mul n (divisor d) = n * divisor d"
    and "wrap32 (vi_numFrames (in_clip a) * multiplier d) \<le> vi_numFrames (in_clip a) * multiplier d"
proof -
  let ?S = "vi_numFrames (in_clip a)"
  from assms(1) have d: "d = make_data a" and cr: "check_ranges e a = None"
    by (rule rifeCreate_Filter)+
  show m: "2 \<le> multiplier d" and dv: "1 \<le> divisor d"
    using check_ranges_None [OF cr] by (simp_all add: d make_data_simps)
  have nf: "numFrames d = c_div (wrap32 (?S * multiplier d)) (divisor d)"
    by (simp add: d make_data_simps i32_mul_def)
  show le: "(n + 1) * divisor d \<le> wrap32 (?S * multiplier d)"
    using below_count [OF dv assms(2)] assms(3) nf by simp
  have "0 \<le> n * divisor d" using assms(2) dv by simp
  moreover have "n * divisor d \<le> (n + 1) * divisor d" using dv by (simp add: distrib_right)
  moreover have "wrap32 (?S * multiplier d) \<le> INT_MAX"
    using wrap32_range [of "?S * multiplier d"] by (simp add: in_i32_def)
  ultimately have "in_i32 (n * divisor d)" using le by (simp add: in_i32_def INT_MIN_def)
  then show "i32_mul n (divisor d) = n * divisor d" by (simp add: i32_mul_def wrap32_id)
  have "2 \<le> ?S" using check_ranges_None [OF cr] by simp
  with m have "0 \<le> ?S * multiplier d" by simp
  then show "wrap32 (?S * multiplier d) \<le> ?S * multiplier d" by (rule wrap32_le)
qed

lemma frameNum_eq:
  assumes "rifeCreate e a = Filter d" and "0 \<le> n" and "n < numFrames d"
  shows "frameNum d n = (n * divisor d) div multiplier d"
    and "remainder d n = (n * divisor d) mod multiplier d"
proof -
  note f = created_arith [OF assms]
  have "0 \<le> n * divisor d" using assms(2) f(2) by simp
  then show "frameNum d n = (n * divisor d) div multiplier d"
    and "remainder d n = (n * divisor d) mod multiplier d"
    using f(1) by (simp_all add: frameNum_def remainder_def f(4) c_div_nonneg c_rem_nonneg)
qed

subsection \<open>Frame numbers stay inside the source\<close>

lemma div_less_bound:
  fixes x m S :: int
  assumes "0 < m" and "x < S * m"
  shows "x div m < S"
proof -
  have "x = x div m * m + x mod m" by simp
  moreover have "0 \<le> x mod m" using assms(1) by simp
  ultimately have "x div m * m \<le> x" by linarith
  with assms(2) have "x div m * m < S * m" by linarith
  then show ?thesis using assms(1) by (simp add: mult_less_cancel_right)
qed

lemma created_bounds:
  assumes "rifeCreate e a = Filter d"
  shows "multiplier d \<le> INT_MAX"
    and "vi_numFrames (in_clip a) * multiplier d \<le> INT_MAX \<Longrightarrow>
           numFrames d = (vi_numFrames (in_clip a) * multiplier d) div divisor d"
proof -
  let ?S = "vi_numFrames (in_clip a)"
  from assms have d: "d = make_data a" and cr: "check_ranges e a = None"
    by (rule rifeCreate_Filter)+
  note r = check_ranges_None [OF cr]
  have "in_i32 (arg_multiplier a)"
    unfolding arg_multiplier_def by (rule mapGetIntSaturated_range) (simp add: in_i32_def INT_MIN_def INT_MAX_def)
  then show "multiplier d \<le> INT_MAX" by (simp add: d make_data_simps in_i32_def)
  let ?W = "wrap32 (?S * multiplier d)"
  have nf: "numFrames d = c_div ?W (divisor d)" by (simp add: d make_data_simps i32_mul_def)
  have dv: "1 \<le> divisor d" using r by (simp add: d make_data_simps)
  assume fits: "?S * multiplier d \<le> INT_MAX"
  have "0 \<le> ?S * multiplier d" using r by (simp add: d make_data_simps)
  with fits have "?W = ?S * multiplier d" by (simp add: wrap32_id in_i32_def INT_MIN_def)
  then show "numFrames d = (?S * multiplier d) div divisor d"
    using \<open>0 \<le> ?S * multiplier d\<close> dv by (simp add: nf c_div_nonneg)
qed

lemma created_count:
  assumes "rifeCreate e a = Filter d" and "0 \<le> n" and "n < numFrames d"
  shows "numFrames d * divisor d \<le> wrap32 (vi_numFrames (in_clip a) * multiplier d)"
    and "i32_sub (numFrames d) (multiplier d) = numFrames d - multiplier d"
proof -
  let ?W = "wrap32 (vi_numFrames (in_clip a) * multiplier d)"
  note f = created_arith [OF assms(1)]
  have pos: "0 \<le> numFrames d - 1" and lt: "numFrames d - 1 < numFrames d" using assms by simp_all
  from f(3) [OF pos lt] show le: "numFrames d * divisor d \<le> ?W" by simp
  have dv: "1 \<le> divisor d" by (rule f(2) [OF pos lt])
  have m: "2 \<le> multiplier d" by (rule f(1) [OF pos lt])
  have "numFrames d * 1 \<le> numFrames d * divisor d"
    using dv pos by (intro mult_left_mono) simp_all
  moreover have "?W \<le> INT_MAX" using wrap32_range [of "vi_numFrames (in_clip a) * multiplier d"]
    by (simp add: in_i32_def)
  ultimately have "numFrames d \<le> INT_MAX" using le by linarith
  moreover note created_bounds(1) [OF assms(1)] m pos
  ultimately have "in_i32 (numFrames d - multiplier d)"
    by (simp add: in_i32_def INT_MIN_def INT_MAX_def)
  then show "i32_sub (numFrames d) (multiplier d) = numFrames d - multiplier d"
    by (simp add: i32_sub_def wrap32_id)
qed

lemma second_frame:
  assumes "rifeCreate e a = Filter d" and "0 \<le> n" and "n < numFrames d" and "interpolate d n"
  shows "frameNum d n + 1 < vi_numFrames (in_clip a)"
    and "i32_add (frameNum d n) 1 = frameNum d n + 1"
proof -
  let ?S = "vi_numFrames (in_clip a)"
  let ?W = "wrap32 (?S * multiplier d)"
  note c = assms(1)
  note f = created_arith [OF c assms(2,3)] and g = frameNum_eq [OF c assms(2,3)]
  have m: "2 \<le> multiplier d" and dv: "1 \<le> divisor d" by (rule f)+
  from assms(4) have "n < numFrames d - multiplier d"
    by (simp add: interpolate_def created_count(2) [OF c assms(2,3)])
  then have "n + multiplier d < numFrames d" by simp
  moreover have "0 \<le> n + multiplier d" using assms(2) m by simp
  ultimately have "(n + multiplier d + 1) * divisor d \<le> ?W"
    by (rule created_arith(3) [OF c, rotated])
  also have "?W \<le> ?S * multiplier d" by (rule f(5))
  finally have "n * divisor d + multiplier d * divisor d + divisor d \<le> ?S * multiplier d"
    by (simp add: algebra_simps)
  moreover have "multiplier d * 1 \<le> multiplier d * divisor d"
    using m dv by (intro mult_left_mono) simp_all
  ultimately have "n * divisor d < (?S - 1) * multiplier d"
    using dv by (simp add: algebra_simps)
  then have "(n * divisor d) div multiplier d < ?S - 1"
    using m by (intro div_less_bound) simp_all
  then show "frameNum d n + 1 < ?S" by (simp add: g(1))
  have q0: "0 \<le> frameNum d n" using assms(2) dv m by (simp add: g(1) pos_imp_zdiv_nonneg_iff)
  have "n * divisor d \<le> INT_MAX"
    using f(3) wrap32_range [of "?S * multiplier d"] dv by (simp add: in_i32_def algebra_simps)
  moreover have "frameNum d n * multiplier d \<le> n * divisor d"
  proof -
    have "n * divisor d = (n * divisor d) div multiplier d * multiplier d + (n * divisor d) mod multiplier d"
      by simp
    moreover have "0 \<le> (n * divisor d) mod multiplier d" using m by simp
    ultimately show ?thesis unfolding g(1) by linarith
  qed
  moreover have "frameNum d n * 2 \<le> frameNum d n * multiplier d"
    using q0 m by (intro mult_left_mono) simp_all
  ultimately have "frameNum d n * 2 \<le> INT_MAX" by linarith
  with q0 have "in_i32 (frameNum d n + 1)" by (simp add: in_i32_def INT_MIN_def INT_MAX_def)
  then show "i32_add (frameNum d n) 1 = frameNum d n + 1" by (simp add: i32_add_def wrap32_id)
qed

lemma first_frame:
  assumes "rifeCreate e a = Filter d" and "0 \<le> n" and "n < numFrames d"
  shows "0 \<le> frameNum d n" and "frameNum d n < vi_numFrames (in_clip a)"
proof -
  note f = created_arith [OF assms] and g = frameNum_eq [OF assms]
  show "0 \<le> frameNum d n" using assms(2) f(1,2) by (simp add: g(1) pos_imp_zdiv_nonneg_iff)
  have "n * divisor d < (n + 1) * divisor d" using f(2) by (simp add: algebra_simps)
  with f(3,5) have "n * divisor d < vi_numFrames (in_clip a) * multiplier d" by linarith
  then show "frameNum d n < vi_numFrames (in_clip a)"
    unfolding g(1) using f(1) by (intro div_less_bound) simp_all
qed

lemma got_cases:
  assumes "rifeGetFrame_ready process src met d n = Inr r"
  shows "set (got r) \<subseteq> {(Node, frameNum d n), (Psnr, frameNum d n)}
           \<union> (if interpolate d n then {(Node, i32_add (frameNum d n) 1)} else {})"
  using assms
  by (auto simp: rifeGetFrame_ready_def Let_def split: if_splits option.splits)

subsection \<open>The sample configurations\<close>

lemma one_gpu_model: "check_model one_gpu (rife_args len m dv sc sk) = None"
  by (simp add: check_model_def modelPath_def one_gpu_def rife_args_def arg_model_def
      mapGetIntSaturated_def INT_MIN_def INT_MAX_def dir_of_def model_dir_def rife_v4_def
      mapGetBool_def)

lemma one_gpu_create:
  assumes "check_ranges one_gpu (rife_args len m dv sc sk) = None"
  shows "rifeCreate one_gpu (rife_args len m dv sc sk) = Filter (make_data (rife_args len m dv sc sk))"
proof -
  have "make_psnr one_gpu (rife_args len m dv sc sk) = None"
    by (simp add: make_psnr_def one_gpu_def)
  moreover have "in_clip (rife_args len m dv sc sk) = rgbs_clip len"
    and "mapGetBool (in_list_gpu (rife_args len m dv sc sk)) = False"
    by (simp_all add: rife_args_def mapGetBool_def)
  moreover have "create_gpu_instance one_gpu = 0" by (simp add: one_gpu_def)
  ultimately show ?thesis
    using assms one_gpu_model [of len m dv sc sk]
    by (simp add: rifeCreate_def rgbs_clip_def isConstantVideoFormat_def)
qed

lemmas sample_defs =
  check_ranges_def make_data_def rife_args_def one_gpu_def rgbs_clip_def
  arg_model_def arg_multiplier_def arg_divisor_def arg_gpuId_def arg_gpuThread_def
  arg_skip_threshold_def mapGetIntSaturated_def mapGetBool_def INT_MIN_def INT_MAX_def
  c_div_def c_rem_def i32_mul_def i32_add_def i32_sub_def wrap32_def muldivRational_def Let_def
  b32_of_int_def b32_div_def b32_exponent_def round_half_even_def compute_bitlen

subsection \<open>The timeline\<close>

text \<open>Claim C1 says that the time step equals \<open>((n * divisor) mod multiplier) / multiplier\<close>
  and is less than 1. Line 116 computes it in single precision. For a three-frame clip
  with multiplier 16777217 and divisor 1, output frame 16777216 is interpolated, its
  remainder is 16777216, the cast of the multiplier rounds down to 16777216 as well, and
  the time step handed to the engine is exactly 1.\<close>

theorem timeline_mapping_counterexample:
  "rifeCreate one_gpu (rife_args 3 16777217 1 False False)
     = Filter (make_data (rife_args 3 16777217 1 False False))
   \<and> numFrames (make_data (rife_args 3 16777217 1 False False)) = 50331651
   \<and> multiplier (make_data (rife_args 3 16777217 1 False False)) = 16777217
   \<and> interpolate (make_data (rife_args 3 16777217 1 False False)) 16777216
   \<and> remainder (make_data (rife_args 3 16777217 1 False False)) 16777216 = 16777216
   \<and> timestep (make_data (rife_args 3 16777217 1 False False)) 16777216 = 1
   \<and> \<not> timestep (make_data (rife_args 3 16777217 1 False False)) 16777216 < 1
   \<and> timestep (make_data (rife_args 3 16777217 1 False False)) 16777216
       \<noteq> real_of_int 16777216 / real_of_int 16777217"
proof -
  let ?a = "rife_args 3 16777217 1 False False"
  let ?d = "make_data ?a"
  have c: "rifeCreate one_gpu ?a = Filter ?d"
    by (rule one_gpu_create) (simp add: sample_defs)
  have nf: "numFrames ?d = 50331651" and m: "multiplier ?d = 16777217"
    by (simp_all add: sample_defs)
  have r: "remainder ?d 16777216 = 16777216" by (simp add: remainder_def sample_defs)
  have i: "interpolate ?d 16777216" by (simp add: interpolate_def r nf m i32_sub_def wrap32_def)
  have t: "timestep ?d 16777216 = 1"
    by (simp add: timestep_def r m b32_of_int_def b32_div_def b32_exponent_def round_half_even_def
        compute_bitlen Let_def)
  show ?thesis using c nf m i r by (simp add: t)
qed

text \<open>Claim C1, amended. For every output frame number \<open>n\<close> below the output length of a
  constructed filter, the source frame number is the floor of \<open>n * divisor / multiplier\<close>;
  the time step is the single-precision quotient of the single-precision values of
  \<open>(n * divisor) mod multiplier\<close> and \<open>multiplier\<close>; it is at least 0 and at most 1, and it is 0
  exactly when \<open>n * divisor\<close> is a multiple of \<open>multiplier\<close>. When the multiplier is at most
  \<open>2 ^ 24\<close> the time step is less than 1 and differs from
  \<open>((n * divisor) mod multiplier) / multiplier\<close> by at most \<open>1 / 2 ^ 25\<close>.\<close>

theorem timeline_mapping:
  assumes "rifeCreate e a = Filter d" and "0 \<le> n" and "n < numFrames d"
  shows "frameNum d n = \<lfloor>real_of_int (n * divisor d) / real_of_int (multiplier d)\<rfloor>
       \<and> timestep d n = b32_div (b32_of_int ((n * divisor d) mod multiplier d)) (b32_of_int (multiplier d))
       \<and> 0 \<le> timestep d n \<and> timestep d n \<le> 1
       \<and> (timestep d n = 0 \<longleftrightarrow> multiplier d dvd n * divisor d)
       \<and> (multiplier d \<le> 2 ^ 24 \<longrightarrow>
            timestep d n < 1
            \<and> \<bar>timestep d n - real_of_int ((n * divisor d) mod multiplier d) / real_of_int (multiplier d)\<bar>
                \<le> 1 / 2 ^ 25)"
proof -
  note f = created_arith [OF assms] and g = frameNum_eq [OF assms]
  let ?r = "(n * divisor d) mod multiplier d"
  let ?m = "multiplier d"
  have m: "0 < ?m" using f(1) by simp
  have r0: "0 \<le> ?r" and r1: "?r < ?m" using m by simp_all
  have one: "frameNum d n = \<lfloor>real_of_int (n * divisor d) / real_of_int ?m\<rfloor>"
    by (simp only: g(1) floor_divide_of_int_eq)
  have t: "timestep d n = b32_div (b32_of_int ?r) (b32_of_int ?m)"
    by (simp add: timestep_def g(2))
  have small: "b32_of_int ?r = ?r \<and> b32_of_int ?m = ?m" if "?m \<le> 2 ^ 24"
  proof -
    from that r0 r1 have "b32_of_int ?r = ?r" by (intro b32_of_int_exact) simp_all
    moreover have "b32_of_int ?m = ?m"
    proof (cases "?m = 2 ^ 24")
      case True
      then show ?thesis by (simp add: b32_of_int_def round_half_even_def compute_bitlen Let_def)
    next
      case False
      with that m show ?thesis by (intro b32_of_int_exact) simp_all
    qed
    ultimately show ?thesis ..
  qed
  show ?thesis
  proof (cases "?r = 0")
    case True
    then have "timestep d n = 0" by (simp add: t b32_of_int_def b32_div_def)
    moreover from True have "?m dvd n * divisor d" by (simp add: mod_eq_0_iff_dvd)
    ultimately show ?thesis using one t True by simp
  next
    case False
    with r0 have rp: "0 < ?r" by simp
    have a: "0 < b32_of_int ?r" using rp by (rule b32_of_int_pos)
    have ab: "b32_of_int ?r \<le> b32_of_int ?m" using rp r1 by (intro b32_of_int_mono) simp_all
    note u = b32_div_unit [OF a ab]
    from False have nd: "\<not> ?m dvd n * divisor d" by (simp add: mod_eq_0_iff_dvd)
    have lt: "timestep d n < 1
        \<and> \<bar>timestep d n - real_of_int ?r / real_of_int ?m\<bar> \<le> 1 / 2 ^ 25" if "?m \<le> 2 ^ 24"
      using b32_div_below [OF rp r1 that] small [OF that] by (simp add: t)
    from one t u nd lt show ?thesis by (simp add: t)
  qed
qed

theorem timeline_mapping_witness:
  "rifeCreate one_gpu (rife_args 3 5 2 False False) = Filter (make_data (rife_args 3 5 2 False False))
   \<and> numFrames (make_data (rife_args 3 5 2 False False)) = 7
   \<and> multiplier (make_data (rife_args 3 5 2 False False)) = 5
   \<and> frameNum (make_data (rife_args 3 5 2 False False)) 3 = 1
   \<and> timestep (make_data (rife_args 3 5 2 False False)) 3 = 13421773 / 67108864
   \<and> \<bar>timestep (make_data (rife_args 3 5 2 False False)) 3 - 1 / 5\<bar> \<le> 1 / 2 ^ 25
   \<and> frameNum (make_data (rife_args 3 5 2 False False)) 5 = 2
   \<and> timestep (make_data (rife_args 3 5 2 False False)) 5 = 0"
proof -
  let ?d = "make_data (rife_args 3 5 2 False False)"
  have c: "rifeCreate one_gpu (rife_args 3 5 2 False False) = Filter ?d"
    by (rule one_gpu_create) (simp add: sample_defs)
  have nf: "numFrames ?d = 7" and m: "multiplier ?d = 5" and dv: "divisor ?d = 2"
    by (simp_all add: sample_defs)
  have h: "(0::int) \<le> 3" "(3::int) < numFrames ?d" "(0::int) \<le> 5" "(5::int) < numFrames ?d"
    by (simp_all add: nf)
  have t3: "timestep ?d 3 = 13421773 / 67108864"
    by (simp add: timestep_def remainder_def sample_defs)
  note at3 = timeline_mapping [OF c h(1,2)] and at5 = timeline_mapping [OF c h(3,4)]
  from at3 have "frameNum ?d 3 = \<lfloor>real_of_int (3 * divisor ?d) / real_of_int (multiplier ?d)\<rfloor>"
    by blast
  then have f3: "frameNum ?d 3 = 1" by (simp add: m dv)
  from at3 have "multiplier ?d \<le> 2 ^ 24 \<longrightarrow>
      \<bar>timestep ?d 3 - real_of_int ((3 * divisor ?d) mod multiplier ?d) / real_of_int (multiplier ?d)\<bar>
        \<le> 1 / 2 ^ 25"
    by blast
  then have e3: "\<bar>timestep ?d 3 - 1 / 5\<bar> \<le> 1 / 2 ^ 25" by (simp add: m dv)
  from at5 have "frameNum ?d 5 = \<lfloor>real_of_int (5 * divisor ?d) / real_of_int (multiplier ?d)\<rfloor>"
    and "timestep ?d 5 = 0 \<longleftrightarrow> multiplier ?d dvd 5 * divisor ?d"
    by blast+
  then have f5: "frameNum ?d 5 = 2" and t5: "timestep ?d 5 = 0" by (simp_all add: m dv)
  from c nf m f3 t3 e3 f5 t5 show ?thesis by blast
qed

text \<open>Claim C7. For a constructed filter (multiplier at least 2, divisor at least 1) and
  every output frame number \<open>n\<close> below its output length, which is the floor of
  \<open>sourceFrameCount * multiplier / divisor\<close> whenever that product fits 32 bits, the
  source frame number is the floor of \<open>n * divisor / multiplier\<close> and lies below the source
  length, and so does every frame number requested in the first phase or taken in the
  second, the second source frame included.\<close>

theorem requests_within_source:
  assumes "rifeCreate e a = Filter d" and "0 \<le> n" and "n < numFrames d"
  shows "(vi_numFrames (in_clip a) * multiplier d \<le> INT_MAX \<longrightarrow>
            numFrames d = \<lfloor>real_of_int (vi_numFrames (in_clip a) * multiplier d) / real_of_int (divisor d)\<rfloor>)
       \<and> frameNum d n = \<lfloor>real_of_int (n * divisor d) / real_of_int (multiplier d)\<rfloor>
       \<and> 0 \<le> frameNum d n \<and> frameNum d n < vi_numFrames (in_clip a)
       \<and> (\<forall>(c, i) \<in> set (rifeGetFrame_initial d n). 0 \<le> i \<and> i < vi_numFrames (in_clip a))
       \<and> (\<forall>r. rifeGetFrame_ready process src met d n = Inr r \<longrightarrow>
              (\<forall>(c, i) \<in> set (got r). 0 \<le> i \<and> i < vi_numFrames (in_clip a)))"
proof -
  let ?S = "vi_numFrames (in_clip a)"
  note g = frameNum_eq [OF assms] and h = first_frame [OF assms]
  have one: "?S * multiplier d \<le> INT_MAX \<longrightarrow>
      numFrames d = \<lfloor>real_of_int (?S * multiplier d) / real_of_int (divisor d)\<rfloor>"
    using created_bounds(2) [OF assms(1)] by (simp only: floor_divide_of_int_eq) simp
  have two: "frameNum d n = \<lfloor>real_of_int (n * divisor d) / real_of_int (multiplier d)\<rfloor>"
    by (simp only: g(1) floor_divide_of_int_eq)
  have snd: "interpolate d n \<Longrightarrow> 0 \<le> i32_add (frameNum d n) 1 \<and> i32_add (frameNum d n) 1 < ?S"
    using second_frame [OF assms] h by simp
  have three: "\<forall>(c, i) \<in> set (rifeGetFrame_initial d n). 0 \<le> i \<and> i < ?S"
    using h snd by (auto simp: rifeGetFrame_initial_def split: if_splits)
  have four: "\<forall>(c, i) \<in> set (got r). 0 \<le> i \<and> i < ?S"
    if "rifeGetFrame_ready process src met d n = Inr r" for r
    using got_cases [OF that] h snd by (auto split: if_splits)
  from one two h three four show ?thesis by blast
qed

theorem requests_within_source_witness:
  "rifeCreate one_gpu (rife_args 3 2 1 False True) = Filter (make_data (rife_args 3 2 1 False True))
   \<and> numFrames (make_data (rife_args 3 2 1 False True)) = 6
   \<and> vi_numFrames (in_clip (rife_args 3 2 1 False True)) = 3
   \<and> rifeGetFrame_initial (make_data (rife_args 3 2 1 False True)) 3 = [(Node, 1), (Node, 2), (Psnr, 1)]
   \<and> frameNum (make_data (rife_args 3 2 1 False True)) 3 < 3"
proof -
  let ?a = "rife_args 3 2 1 False True"
  let ?d = "make_data ?a"
  have c: "rifeCreate one_gpu ?a = Filter ?d"
    by (rule one_gpu_create) (simp add: sample_defs)
  have nf: "numFrames ?d = 6" and S: "vi_numFrames (in_clip ?a) = 3"
    by (simp_all add: sample_defs)
  have lt: "(3::int) < numFrames ?d" by (simp add: nf)
  have rq: "rifeGetFrame_initial ?d 3 = [(Node, 1), (Node, 2), (Psnr, 1)]"
    by (simp add: rifeGetFrame_initial_def interpolate_def frameNum_def remainder_def sample_defs)
  have "(0::int) \<le> 3" by simp
  from requests_within_source [OF c this lt, where process = blend and src = "numbered {}" and met = "scored 30"]
  have "frameNum ?d 3 < vi_numFrames (in_clip ?a)" by blast
  then show ?thesis using c nf S rq by simp
qed

subsection \<open>Pass-through at the end of the clip\<close>

lemma rescale_duration_pixels: "pixels (rescale_duration d f) = pixels f"
  by (simp add: rescale_duration_def Let_def split: prod.splits)

lemma rescale_duration_other:
  assumes "k \<noteq> ''_DurationNum''" and "k \<noteq> ''_DurationDen''"
  shows "props (rescale_duration d f) k = props f k"
  using assms by (simp add: rescale_duration_def mapSetInt_def Let_def split: prod.splits)

text \<open>Claim C2. For every output frame number \<open>n\<close> below the output length with a nonzero
  time step and \<open>n \<ge> outputLength - multiplier\<close>, only the frame \<open>frameNum\<close> of the source is
  requested, the engine is not called, and the frame returned is a copy of that source
  frame (its planes and, the two duration properties apart, its properties).\<close>

theorem boundary_passthrough:
  assumes "rifeCreate e a = Filter d" and "0 \<le> n" and "n < numFrames d"
    and "timestep d n \<noteq> 0" and "numFrames d - multiplier d \<le> n"
  shows "rifeGetFrame_initial d n = (Node, frameNum d n) # (if skip d then [(Psnr, frameNum d n)] else [])
       \<and> rifeGetFrame_ready process src met d n =
           Inr \<lparr> got = [(Node, frameNum d n)], engine = None,
                 dst = rescale_duration d (copyFrame (src (frameNum d n))) \<rparr>
       \<and> pixels (rescale_duration d (copyFrame (src (frameNum d n)))) = pixels (src (frameNum d n))
       \<and> (\<forall>k. k \<noteq> ''_DurationNum'' \<and> k \<noteq> ''_DurationDen'' \<longrightarrow>
             props (rescale_duration d (copyFrame (src (frameNum d n)))) k = props (src (frameNum d n)) k)"
proof -
  have "\<not> interpolate d n"
    using assms(5) by (simp add: interpolate_def created_count(2) [OF assms(1,2,3)])
  then show ?thesis
    by (simp add: rifeGetFrame_initial_def rifeGetFrame_ready_def rescale_duration_pixels
        rescale_duration_other copyFrame_def)
qed

theorem boundary_passthrough_witness:
  "rifeCreate one_gpu (rife_args 3 2 1 True True) = Filter (make_data (rife_args 3 2 1 True True))
   \<and> numFrames (make_data (rife_args 3 2 1 True True)) = 6
   \<and> timestep (make_data (rife_args 3 2 1 True True)) 5 = 1 / 2
   \<and> rifeGetFrame_initial (make_data (rife_args 3 2 1 True True)) 5 = [(Node, 2), (Psnr, 2)]
   \<and> rifeGetFrame_ready blend (numbered {}) (scored 30) (make_data (rife_args 3 2 1 True True)) 5 =
        Inr \<lparr> got = [(Node, 2)], engine = None,
              dst = rescale_duration (make_data (rife_args 3 2 1 True True)) (numbered {} 2) \<rparr>
   \<and> pixels (rescale_duration (make_data (rife_args 3 2 1 True True)) (numbered {} 2)) = 2"
proof -
  let ?a = "rife_args 3 2 1 True True"
  let ?d = "make_data ?a"
  have c: "rifeCreate one_gpu ?a = Filter ?d"
    by (rule one_gpu_create) (simp add: sample_defs)
  have nf: "numFrames ?d = 6" and m: "multiplier ?d = 2" and sk: "skip ?d"
    by (simp_all add: sample_defs)
  have fn: "frameNum ?d 5 = 2" by (simp add: frameNum_def sample_defs)
  have t: "timestep ?d 5 = 1 / 2" by (simp add: timestep_def remainder_def sample_defs)
  have h: "(0::int) \<le> 5" "5 < numFrames ?d" "timestep ?d 5 \<noteq> 0" "numFrames ?d - multiplier ?d \<le> 5"
    by (simp_all add: nf m t)
  from boundary_passthrough [OF c h, of blend "numbered {}" "scored 30"]
  show ?thesis using c nf t sk by (simp add: fn copyFrame_def numbered_def)
qed

subsection \<open>Requests for the metric frame\<close>

text \<open>Claim C5 says that the metric frame is requested only when a second source frame
  is needed. With \<^verbatim>\<open>skip\<close> on, output frame 2 of a doubled three-frame clip coincides
  with source frame 1 (time step 0, no second frame) and the metric frame is requested
  all the same.\<close>

theorem metric_request_counterexample:
  "rifeCreate one_gpu (rife_args 3 2 1 False True) = Filter (make_data (rife_args 3 2 1 False True))
   \<and> skip (make_data (rife_args 3 2 1 False True))
   \<and> timestep (make_data (rife_args 3 2 1 False True)) 2 = 0
   \<and> \<not> interpolate (make_data (rife_args 3 2 1 False True)) 2
   \<and> rifeGetFrame_initial (make_data (rife_args 3 2 1 False True)) 2 = [(Node, 1), (Psnr, 1)]"
proof -
  let ?a = "rife_args 3 2 1 False True"
  have "rifeCreate one_gpu ?a = Filter (make_data ?a)"
    by (rule one_gpu_create) (simp add: sample_defs)
  then show ?thesis
    by (simp add: rifeGetFrame_initial_def interpolate_def timestep_def frameNum_def remainder_def
        sample_defs)
qed

text \<open>Claim C5, amended. In the request phase the metric frame at \<open>frameNum\<close> is requested
  exactly when \<^verbatim>\<open>skip\<close> is on, whether or not a second source frame is needed; the
  resumed call takes it from the host only when \<^verbatim>\<open>skip\<close> is on and the frame is to be
  interpolated.\<close>

theorem metric_request:
  "((Psnr, i) \<in> set (rifeGetFrame_initial d n) \<longleftrightarrow> skip d \<and> i = frameNum d n)
   \<and> (\<forall>r. rifeGetFrame_ready process src met d n = Inr r \<longrightarrow>
         ((Psnr, i) \<in> set (got r) \<longleftrightarrow> skip d \<and> interpolate d n \<and> i = frameNum d n))"
  by (auto simp: rifeGetFrame_initial_def rifeGetFrame_ready_def Let_def split: if_splits option.splits)

theorem metric_request_witness:
  "(Psnr, 1) \<in> set (rifeGetFrame_initial (make_data (rife_args 3 2 1 False True)) 2)
   \<and> rifeGetFrame_ready blend (numbered {}) (scored 30) (make_data (rife_args 3 2 1 False True)) 2
       = Inr \<lparr> got = [(Node, 1)], engine = None,
               dst = rescale_duration (make_data (rife_args 3 2 1 False True)) (numbered {} 1) \<rparr>
   \<and> (Psnr, 1) \<notin> set [(Node, 1::int)]"
proof -
  let ?d = "make_data (rife_args 3 2 1 False True)"
  have r: "rifeGetFrame_ready blend (numbered {}) (scored 30) ?d 2
       = Inr \<lparr> got = [(Node, 1)], engine = None, dst = rescale_duration ?d (numbered {} 1) \<rparr>"
    by (simp add: rifeGetFrame_ready_def interpolate_def frameNum_def remainder_def copyFrame_def sample_defs)
  from metric_request [of 1 ?d 2 blend "numbered {}" "scored 30"] r
  show ?thesis by (simp add: frameNum_def sample_defs)
qed

subsection \<open>The decision between copying and interpolating\<close>

lemma interpolate_ready:
  assumes "rifeCreate e a = Filter d" and "0 \<le> n" and "n < numFrames d" and "interpolate d n"
    and "skip d \<longrightarrow> mapGetFloat (props (met (frameNum d n))) ''psnr_y'' = Some score"
  shows "rifeGetFrame_ready process src met d n =
     (if (sceneChange d \<and> fst (mapGetInt (props (src (frameNum d n))) ''_SceneChangeNext'') \<noteq> 0)
          \<or> (skip d \<and> skip_threshold d \<le> score)
      then Inr \<lparr> got = (Node, frameNum d n) # (if skip d then [(Psnr, frameNum d n)] else []),
                 engine = None,
                 dst = rescale_duration d (copyFrame (src (frameNum d n))) \<rparr>
      else Inr \<lparr> got = (Node, frameNum d n) # (if skip d then [(Psnr, frameNum d n)] else [])
                        @ [(Node, frameNum d n + 1)],
                 engine = Some (pixels (src (frameNum d n)), pixels (src (frameNum d n + 1)), timestep d n),
                 dst = rescale_duration d
                         (newVideoFrame (process (pixels (src (frameNum d n))) (pixels (src (frameNum d n + 1)))
                            (timestep d n)) (src (frameNum d n))) \<rparr>)"
proof -
  from assms(1) have d: "d = make_data a" and cr: "check_ranges e a = None"
    by (rule rifeCreate_Filter)+
  have thr: "\<not> skip_threshold d \<le> - 1"
    using check_ranges_None(5) [OF cr] by (simp add: d make_data_simps)
  note nx = second_frame(2) [OF assms(1-4)]
  show ?thesis
  proof (cases "skip d")
    case True
    with assms(5) have "mapGetFloat (props (met (frameNum d n))) ''psnr_y'' = Some score" by simp
    with True assms(4) show ?thesis by (simp add: rifeGetFrame_ready_def Let_def nx)
  next
    case False
    with assms(4) thr show ?thesis by (simp add: rifeGetFrame_ready_def Let_def nx)
  qed
qed

text \<open>Claim C3. For a frame that is to be interpolated (nonzero time step, not at the end
  of the clip): if scene-change detection is on and the flag is set the call passes
  through, whatever the score; otherwise if \<^verbatim>\<open>skip\<close> is on and the score is at least the
  threshold (equality included) it passes through; otherwise the engine is called on the
  frames \<open>frameNum\<close> and \<open>frameNum + 1\<close>. Every pass-through returns a copy of the frame
  \<open>frameNum\<close>, the first of the pair.\<close>

theorem skip_decision:
  assumes "rifeCreate e a = Filter d" and "0 \<le> n" and "n < numFrames d" and "interpolate d n"
    and "skip d \<longrightarrow> mapGetFloat (props (met (frameNum d n))) ''psnr_y'' = Some score"
  shows "\<exists>r. rifeGetFrame_ready process src met d n = Inr r \<and>
     (if sceneChange d \<and> fst (mapGetInt (props (src (frameNum d n))) ''_SceneChangeNext'') \<noteq> 0
        then decision_of r = PASSTHROUGH
      else if skip d \<and> score \<ge> skip_threshold d
        then decision_of r = PASSTHROUGH
      else decision_of r = SYNTHESIZE
           \<and> engine r = Some (pixels (src (frameNum d n)), pixels (src (frameNum d n + 1)), timestep d n)
           \<and> pixels (dst r) = process (pixels (src (frameNum d n))) (pixels (src (frameNum d n + 1)))
                                 (timestep d n))
     \<and> (decision_of r = PASSTHROUGH \<longrightarrow>
          engine r = None
          \<and> dst r = rescale_duration d (copyFrame (src (frameNum d n)))
          \<and> pixels (dst r) = pixels (src (frameNum d n)))"
  by (simp add: interpolate_ready [where met = met and score = score, OF assms] decision_of_def rescale_duration_pixels
      copyFrame_def newVideoFrame_def)

theorem skip_decision_witness:
  "rifeCreate one_gpu (rife_args 3 2 1 True True) = Filter (make_data (rife_args 3 2 1 True True))
   \<and> interpolate (make_data (rife_args 3 2 1 True True)) 1
   \<and> skip_threshold (make_data (rife_args 3 2 1 True True)) = 60
   \<and> (\<exists>r. rifeGetFrame_ready blend (numbered {0}) (scored (599 / 10)) (make_data (rife_args 3 2 1 True True)) 1 = Inr r
          \<and> decision_of r = PASSTHROUGH \<and> pixels (dst r) = 0)
   \<and> (\<exists>r. rifeGetFrame_ready blend (numbered {}) (scored 60) (make_data (rife_args 3 2 1 True True)) 1 = Inr r
          \<and> decision_of r = PASSTHROUGH \<and> pixels (dst r) = 0)
   \<and> (\<exists>r. rifeGetFrame_ready blend (numbered {}) (scored (599 / 10)) (make_data (rife_args 3 2 1 True True)) 1 = Inr r
          \<and> decision_of r = SYNTHESIZE \<and> engine r = Some (0, 1, 1 / 2) \<and> pixels (dst r) = blend 0 1 (1 / 2))"
proof -
  let ?a = "rife_args 3 2 1 True True"
  let ?d = "make_data ?a"
  have c: "rifeCreate one_gpu ?a = Filter ?d"
    by (rule one_gpu_create) (simp add: sample_defs)
  have nf: "numFrames ?d = 6" and sk: "skip ?d" and sc: "sceneChange ?d" and thr: "skip_threshold ?d = 60"
    by (simp_all add: sample_defs)
  have fn: "frameNum ?d 1 = 0" by (simp add: frameNum_def sample_defs)
  have t: "timestep ?d 1 = 1 / 2" by (simp add: timestep_def remainder_def sample_defs)
  have i: "interpolate ?d 1" by (simp add: interpolate_def remainder_def sample_defs)
  have h: "(0::int) \<le> 1" "1 < numFrames ?d" by (simp_all add: nf)
  have m: "skip ?d \<longrightarrow> mapGetFloat (props (scored v (frameNum ?d 1))) ''psnr_y'' = Some v" for v
    by (simp add: scored_def mapGetFloat_def)
  have f0: "fst (mapGetInt (props (numbered {0} 0)) ''_SceneChangeNext'') = 1"
    and f1: "fst (mapGetInt (props (numbered {} 0)) ''_SceneChangeNext'') = 0"
    by (simp_all add: numbered_def mapGetInt_def)
  have px: "pixels (numbered F j) = j" for F j by (simp add: numbered_def)
  have "\<exists>r. rifeGetFrame_ready blend (numbered {0}) (scored (599 / 10)) ?d 1 = Inr r
          \<and> decision_of r = PASSTHROUGH \<and> pixels (dst r) = 0"
    using skip_decision [where met = "scored (599 / 10)" and process = blend and src = "numbered {0}", OF c h i m]
    by (auto simp: fn sc f0 px)
  moreover have "\<exists>r. rifeGetFrame_ready blend (numbered {}) (scored 60) ?d 1 = Inr r
          \<and> decision_of r = PASSTHROUGH \<and> pixels (dst r) = 0"
    using skip_decision [where met = "scored 60" and process = blend and src = "numbered {}", OF c h i m]
    by (auto simp: fn sk thr f1 px)
  moreover have "\<exists>r. rifeGetFrame_ready blend (numbered {}) (scored (599 / 10)) ?d 1 = Inr r
          \<and> decision_of r = SYNTHESIZE \<and> engine r = Some (0, 1, 1 / 2) \<and> pixels (dst r) = blend 0 1 (1 / 2)"
    using skip_decision [where met = "scored (599 / 10)" and process = blend and src = "numbered {}", OF c h i m]
    by (auto simp: fn t sk thr f1 px)
  ultimately show ?thesis using c i thr by blast
qed

subsection \<open>Where the scene-change flag and the score are read\<close>

text \<open>Claim C6 says that the scene-change flag consulted for the pair \<open>frameNum\<close>,
  \<open>frameNum + 1\<close> is the one attached to the second frame. For output frame 1 of a doubled
  three-frame clip the pair is 0, 1. When only frame 1 carries the scene-change
  properties the call still goes to the engine, and when only frame 0 carries them it
  passes through.\<close>

theorem scene_flag_counterexample:
  "rifeCreate one_gpu (rife_args 3 2 1 True False) = Filter (make_data (rife_args 3 2 1 True False))
   \<and> frameNum (make_data (rife_args 3 2 1 True False)) 1 = 0
   \<and> props (numbered {1} 0) ''_SceneChangeNext'' = None
   \<and> props (numbered {1} 0) ''_SceneChangePrev'' = None
   \<and> props (numbered {1} 1) ''_SceneChangeNext'' = Some (PInt 1)
   \<and> props (numbered {1} 1) ''_SceneChangePrev'' = Some (PInt 1)
   \<and> rifeGetFrame_ready blend (numbered {1}) (scored 0) (make_data (rife_args 3 2 1 True False)) 1
       = Inr \<lparr> got = [(Node, 0), (Node, 1)], engine = Some (0, 1, 1 / 2),
               dst = rescale_duration (make_data (rife_args 3 2 1 True False))
                       (newVideoFrame (blend 0 1 (1 / 2)) (numbered {1} 0)) \<rparr>
   \<and> props (numbered {0} 1) ''_SceneChangeNext'' = None
   \<and> props (numbered {0} 1) ''_SceneChangePrev'' = None
   \<and> rifeGetFrame_ready blend (numbered {0}) (scored 0) (make_data (rife_args 3 2 1 True False)) 1
       = Inr \<lparr> got = [(Node, 0)], engine = None,
               dst = rescale_duration (make_data (rife_args 3 2 1 True False)) (numbered {0} 0) \<rparr>"
proof -
  let ?a = "rife_args 3 2 1 True False"
  let ?d = "make_data ?a"
  have c: "rifeCreate one_gpu ?a = Filter ?d"
    by (rule one_gpu_create) (simp add: sample_defs)
  have fn: "frameNum ?d 1 = 0" by (simp add: frameNum_def sample_defs)
  have t: "timestep ?d 1 = 1 / 2" by (simp add: timestep_def remainder_def sample_defs)
  have i: "interpolate ?d 1" by (simp add: interpolate_def remainder_def sample_defs)
  have s: "\<not> skip ?d" "sceneChange ?d" "skip_threshold ?d = 60" by (simp_all add: sample_defs)
  have nx: "i32_add 0 1 = 1" by (simp add: i32_add_def wrap32_def)
  have p: "props (numbered {1} 0) ''_SceneChangeNext'' = None"
    "props (numbered {1} 0) ''_SceneChangePrev'' = None"
    "props (numbered {1} 1) ''_SceneChangeNext'' = Some (PInt 1)"
    "props (numbered {1} 1) ''_SceneChangePrev'' = Some (PInt 1)"
    "props (numbered {0} 1) ''_SceneChangeNext'' = None"
    "props (numbered {0} 1) ''_SceneChangePrev'' = None"
    "props (numbered {0} 0) ''_SceneChangeNext'' = Some (PInt 1)"
    by (simp_all add: numbered_def)
  have px: "pixels (numbered F j) = j" for F j by (simp add: numbered_def)
  have r1: "rifeGetFrame_ready blend (numbered {1}) (scored 0) ?d 1
       = Inr \<lparr> got = [(Node, 0), (Node, 1)], engine = Some (0, 1, 1 / 2),
               dst = rescale_duration ?d (newVideoFrame (blend 0 1 (1 / 2)) (numbered {1} 0)) \<rparr>"
    by (simp add: rifeGetFrame_ready_def Let_def i fn t s nx p px mapGetInt_def)
  have r2: "rifeGetFrame_ready blend (numbered {0}) (scored 0) ?d 1
       = Inr \<lparr> got = [(Node, 0)], engine = None, dst = rescale_duration ?d (numbered {0} 0) \<rparr>"
    by (simp add: rifeGetFrame_ready_def Let_def i fn t s nx p px mapGetInt_def copyFrame_def)
  show ?thesis using c fn p(1-6) r1 r2 by simp
qed

text \<open>Claim C6, amended. The scene-change flag consulted for the pair is the property
  \<^verbatim>\<open>_SceneChangeNext\<close> of the first frame of the pair, the one at \<open>frameNum\<close>, and the
  score is the property \<^verbatim>\<open>psnr_y\<close> of the metric frame at \<open>frameNum\<close>: the decision is
  fixed by these two and does not change when any other frame of either clip does.\<close>

theorem scene_flag_source:
  assumes "rifeCreate e a = Filter d" and "0 \<le> n" and "n < numFrames d" and "interpolate d n"
    and "skip d \<longrightarrow> mapGetFloat (props (met (frameNum d n))) ''psnr_y'' = Some score"
    and "src' (frameNum d n) = src (frameNum d n)"
    and "met' (frameNum d n) = met (frameNum d n)"
  shows "\<exists>r r'. rifeGetFrame_ready process src met d n = Inr r
       \<and> rifeGetFrame_ready process src' met' d n = Inr r'
       \<and> decision_of r' = decision_of r
       \<and> (decision_of r = PASSTHROUGH \<longleftrightarrow>
            (sceneChange d \<and> fst (mapGetInt (props (src (frameNum d n))) ''_SceneChangeNext'') \<noteq> 0)
            \<or> (skip d \<and> score \<ge> skip_threshold d))"
proof -
  from assms(5,7) have m': "skip d \<longrightarrow> mapGetFloat (props (met' (frameNum d n))) ''psnr_y'' = Some score"
    by simp
  show ?thesis
    by (simp add: interpolate_ready [where met = met and score = score, OF assms(1-5)]
        interpolate_ready [where met = met' and score = score, OF assms(1-4) m']
        assms(6) decision_of_def)
qed

theorem scene_flag_source_witness:
  "rifeCreate one_gpu (rife_args 3 2 1 True False) = Filter (make_data (rife_args 3 2 1 True False))
   \<and> interpolate (make_data (rife_args 3 2 1 True False)) 1
   \<and> numbered {0, 1} 0 = numbered {0} 0
   \<and> numbered {0, 1} 1 \<noteq> numbered {0} 1
   \<and> (\<exists>r r'. rifeGetFrame_ready blend (numbered {0}) (scored 0) (make_data (rife_args 3 2 1 True False)) 1 = Inr r
         \<and> rifeGetFrame_ready blend (numbered {0, 1}) (scored 0) (make_data (rife_args 3 2 1 True False)) 1 = Inr r'
         \<and> decision_of r' = decision_of r \<and> decision_of r = PASSTHROUGH)"
proof -
  let ?a = "rife_args 3 2 1 True False"
  let ?d = "make_data ?a"
  have c: "rifeCreate one_gpu ?a = Filter ?d"
    by (rule one_gpu_create) (simp add: sample_defs)
  have fn: "frameNum ?d 1 = 0" by (simp add: frameNum_def sample_defs)
  have i: "interpolate ?d 1" by (simp add: interpolate_def remainder_def sample_defs)
  have s: "\<not> skip ?d" "sceneChange ?d" by (simp_all add: sample_defs)
  have h: "(0::int) \<le> 1" "1 < numFrames ?d" by (simp_all add: sample_defs)
  have m: "skip ?d \<longrightarrow> mapGetFloat (props (scored 0 (frameNum ?d 1))) ''psnr_y'' = Some 0"
    by (simp add: s)
  have e1: "numbered {0, 1} (frameNum ?d 1) = numbered {0} (frameNum ?d 1)"
    by (simp add: fn numbered_def)
  have e2: "scored 0 (frameNum ?d 1) = scored 0 (frameNum ?d 1)" by simp
  have ne: "numbered {0, 1} 1 \<noteq> numbered {0} 1"
  proof
    assume "numbered {0, 1} 1 = numbered {0} 1"
    then have "props (numbered {0, 1} 1) ''_SceneChangeNext'' = props (numbered {0} 1) ''_SceneChangeNext''"
      by simp
    then show False by (simp add: numbered_def)
  qed
  have f0: "fst (mapGetInt (props (numbered {0} 0)) ''_SceneChangeNext'') = 1"
    by (simp add: numbered_def mapGetInt_def)
  from scene_flag_source [where met = "scored 0" and met' = "scored 0" and src = "numbered {0}"
      and src' = "numbered {0, 1}" and process = blend, OF c h i m e1 e2]
  have "\<exists>r r'. rifeGetFrame_ready blend (numbered {0}) (scored 0) ?d 1 = Inr r
         \<and> rifeGetFrame_ready blend (numbered {0, 1}) (scored 0) ?d 1 = Inr r'
         \<and> decision_of r' = decision_of r \<and> decision_of r = PASSTHROUGH"
    by (auto simp: fn s f0)
  then show ?thesis using c i e1 ne by (simp add: fn)
qed

subsection \<open>The score when skipping is off\<close>



subsection \<open>The length check of construction\<close>

text \<open>Claim C4 says that a configuration whose product \<open>sourceFrameCount * multiplier\<close> does
  not fit 32 bits is rejected. The check of line 223 divides the frame count by the
  divisor first: a clip of 800000000 frames with multiplier 5 and divisor 2 passes it
  (400000000 is at most 429496729), the product 4000000000 of line 398 does not fit, and
  the length stored is what is left after the wrap-around.\<close>

theorem too_long_check_overflow:
  "rifeCreate one_gpu (rife_args 800000000 5 2 False False)
     = Filter (make_data (rife_args 800000000 5 2 False False))
   \<and> vi_numFrames (in_clip (rife_args 800000000 5 2 False False)) = 800000000
   \<and> multiplier (make_data (rife_args 800000000 5 2 False False)) = 5
   \<and> divisor (make_data (rife_args 800000000 5 2 False False)) = 2
   \<and> \<not> in_i32 (800000000 * 5)
   \<and> numFrames (make_data (rife_args 800000000 5 2 False False)) = - 147483648"
proof -
  let ?a = "rife_args 800000000 5 2 False False"
  have "rifeCreate one_gpu ?a = Filter (make_data ?a)"
    by (rule one_gpu_create) (simp add: sample_defs)
  then show ?thesis by (simp add: sample_defs in_i32_def)
qed

text \<open>In particular the filter accepted there announces a negative length.\<close>

theorem too_long_check_overflow_witness:
  "rifeCreate one_gpu (rife_args 800000000 5 2 False False)
     = Filter (make_data (rife_args 800000000 5 2 False False))
   \<and> numFrames (make_data (rife_args 800000000 5 2 False False)) < 0
   \<and> INT_MAX < vi_numFrames (in_clip (rife_args 800000000 5 2 False False))
                 * multiplier (make_data (rife_args 800000000 5 2 False False))"
  using too_long_check_overflow by (simp add: INT_MAX_def)

text \<open>With divisor 1 the check is the one that is needed: the product fits.\<close>

lemma length_check_divisor_one:
  assumes "rifeCreate e a = Filter d" and "divisor d = 1"
  shows "in_i32 (vi_numFrames (in_clip a) * multiplier d)"
    and "numFrames d = vi_numFrames (in_clip a) * multiplier d"
proof -
  let ?S = "vi_numFrames (in_clip a)"
  from assms(1) have d: "d = make_data a" and cr: "check_ranges e a = None"
    by (rule rifeCreate_Filter)+
  note r = check_ranges_None [OF cr]
  have m: "2 \<le> multiplier d" and S: "2 \<le> ?S" using r by (simp_all add: d make_data_simps)
  have "c_div ?S 1 \<le> c_div INT_MAX (multiplier d)"
    using r(4) assms(2) by (simp add: d make_data_simps)
  then have "?S \<le> INT_MAX div multiplier d"
    using S m by (simp add: c_div_nonneg INT_MAX_def)
  then have "?S * multiplier d \<le> (INT_MAX div multiplier d) * multiplier d"
    using m by (intro mult_right_mono) simp_all
  moreover have "INT_MAX = INT_MAX div multiplier d * multiplier d + INT_MAX mod multiplier d" by simp
  moreover have "0 \<le> INT_MAX mod multiplier d" using m by simp
  ultimately have le: "?S * multiplier d \<le> INT_MAX" by linarith
  moreover have "0 \<le> ?S * multiplier d" using S m by simp
  ultimately show "in_i32 (?S * multiplier d)" by (simp add: in_i32_def INT_MIN_def)
  from created_bounds(2) [OF assms(1) le] show "numFrames d = ?S * multiplier d"
    by (simp add: assms(2))
qed

subsection \<open>Frame durations\<close>

lemma muldivRational_lowest:
  assumes "0 < y" and "0 < m"
  shows "0 < snd (muldivRational (x, y) dv m)"
    and "coprime (fst (muldivRational (x, y) dv m)) (snd (muldivRational (x, y) dv m))"
    and "Fract (fst (muldivRational (x, y) dv m)) (snd (muldivRational (x, y) dv m))
           = Fract x y * Fract dv m"
proof -
  let ?A = "x * dv" and ?B = "y * m"
  let ?g = "gcd ?A ?B"
  have B: "0 < ?B" using assms by simp
  have g: "0 < ?g" using assms by simp
  have "?g dvd ?B" by simp
  then have "?g \<le> ?B" using B by (rule zdvd_imp_le)
  with g show "0 < snd (muldivRational (x, y) dv m)"
    by (simp add: muldivRational_def Let_def pos_imp_zdiv_pos_iff)
  from B have "?B \<noteq> 0" by linarith
  then have "?A \<noteq> 0 \<or> ?B \<noteq> 0" ..
  then have "coprime (?A div ?g) (?B div ?g)" by (rule div_gcd_coprime)
  then show "coprime (fst (muldivRational (x, y) dv m)) (snd (muldivRational (x, y) dv m))"
    by (simp add: muldivRational_def Let_def)
  have "Fract (?A div ?g) (?B div ?g) = Fract ?A ?B" by (rule Fract_coprime)
  also have "\<dots> = Fract x y * Fract dv m" using assms by simp
  finally show "Fract (fst (muldivRational (x, y) dv m)) (snd (muldivRational (x, y) dv m))
           = Fract x y * Fract dv m"
    by (simp add: muldivRational_def Let_def)
qed

lemma rescale_duration_present:
  assumes "props f ''_DurationNum'' = Some (PInt x)" and "props f ''_DurationDen'' = Some (PInt y)"
  shows "props (rescale_duration d f) ''_DurationNum''
           = Some (PInt (fst (muldivRational (x, y) (divisor d) (multiplier d))))"
    and "props (rescale_duration d f) ''_DurationDen''
           = Some (PInt (snd (muldivRational (x, y) (divisor d) (multiplier d))))"
  using assms
  by (simp_all add: rescale_duration_def mapGetInt_def mapSetInt_def Let_def split: prod.splits)

lemma rescale_duration_absent:
  assumes "\<not> (\<exists>x y. props f ''_DurationNum'' = Some (PInt x) \<and> props f ''_DurationDen'' = Some (PInt y))"
  shows "rescale_duration d f = f"
  using assms
  by (auto simp: rescale_duration_def mapGetInt_def Let_def split: prod.splits option.splits prop_value.splits)

lemma ready_dst:
  assumes "rifeGetFrame_ready process src met d n = Inr r"
  shows "\<exists>f. dst r = rescale_duration d f \<and> props f = props (src (frameNum d n))"
proof -
  have "\<exists>f. rescale_duration d g = rescale_duration d f \<and> props f = props g" for g :: "'a frame"
    by blast
  moreover have "\<exists>f. rescale_duration d (newVideoFrame px g) = rescale_duration d f \<and> props f = props g"
    for g :: "'a frame" and px
    by (rule exI [of _ "newVideoFrame px g"]) (simp add: newVideoFrame_def)
  ultimately show ?thesis
    using assms
    by (auto simp: rifeGetFrame_ready_def Let_def copyFrame_def split: if_splits option.splits)
qed

text \<open>Claim C8. For every frame a resumed call returns, on whichever branch: if the source
  frame carries both duration properties (with a positive denominator) they are replaced
  by the exact product of the old duration and \<open>divisor / multiplier\<close> in lowest terms, the
  denominator stays positive and every other property is kept; if either is missing the
  properties are those of the source frame, nothing added.\<close>

theorem duration_rescaled:
  assumes "rifeCreate e a = Filter d" and "rifeGetFrame_ready process src met d n = Inr r"
  shows "(\<forall>x y. props (src (frameNum d n)) ''_DurationNum'' = Some (PInt x)
            \<and> props (src (frameNum d n)) ''_DurationDen'' = Some (PInt y) \<and> 0 < y \<longrightarrow>
            (\<exists>x' y'. props (dst r) ''_DurationNum'' = Some (PInt x')
               \<and> props (dst r) ''_DurationDen'' = Some (PInt y')
               \<and> 0 < y' \<and> coprime x' y'
               \<and> Fract x' y' = Fract x y * Fract (divisor d) (multiplier d))
            \<and> (\<forall>k. k \<noteq> ''_DurationNum'' \<and> k \<noteq> ''_DurationDen'' \<longrightarrow>
                  props (dst r) k = props (src (frameNum d n)) k))
       \<and> (\<not> (\<exists>x y. props (src (frameNum d n)) ''_DurationNum'' = Some (PInt x)
                  \<and> props (src (frameNum d n)) ''_DurationDen'' = Some (PInt y)) \<longrightarrow>
            props (dst r) = props (src (frameNum d n)))"
proof -
  from assms(1) have d: "d = make_data a" and cr: "check_ranges e a = None"
    by (rule rifeCreate_Filter)+
  have m: "0 < multiplier d" using check_ranges_None(1) [OF cr] by (simp add: d make_data_simps)
  from ready_dst [OF assms(2)] obtain f
    where r: "dst r = rescale_duration d f" and pf: "props f = props (src (frameNum d n))" by blast
  show ?thesis
  proof (intro conjI allI impI)
    fix x y
    assume h: "props (src (frameNum d n)) ''_DurationNum'' = Some (PInt x)
            \<and> props (src (frameNum d n)) ''_DurationDen'' = Some (PInt y) \<and> 0 < y"
    then have y: "0 < y" by simp
    from h have "props f ''_DurationNum'' = Some (PInt x)" "props f ''_DurationDen'' = Some (PInt y)"
      by (simp_all add: pf)
    note p = rescale_duration_present [OF this, of d]
    show "\<exists>x' y'. props (dst r) ''_DurationNum'' = Some (PInt x')
               \<and> props (dst r) ''_DurationDen'' = Some (PInt y')
               \<and> 0 < y' \<and> coprime x' y'
               \<and> Fract x' y' = Fract x y * Fract (divisor d) (multiplier d)"
      using p muldivRational_lowest [OF y m, of x "divisor d"] unfolding r by blast
  next
    fix x y k
    assume "k \<noteq> ''_DurationNum'' \<and> k \<noteq> ''_DurationDen''"
    then show "props (dst r) k = props (src (frameNum d n)) k"
      unfolding r by (simp add: rescale_duration_other pf)
  next
    assume "\<not> (\<exists>x y. props (src (frameNum d n)) ''_DurationNum'' = Some (PInt x)
                  \<and> props (src (frameNum d n)) ''_DurationDen'' = Some (PInt y))"
    then have "rescale_duration d f = f" by (intro rescale_duration_absent) (simp add: pf)
    then show "props (dst r) = props (src (frameNum d n))" unfolding r by (simp add: pf)
  qed
qed

theorem duration_rescaled_witness:
  "rifeCreate one_gpu (rife_args 3 2 1 False False) = Filter (make_data (rife_args 3 2 1 False False))
   \<and> rifeGetFrame_ready blend (numbered {}) (scored 0) (make_data (rife_args 3 2 1 False False)) 1
       = Inr \<lparr> got = [(Node, 0), (Node, 1)], engine = Some (0, 1, 1 / 2),
               dst = rescale_duration (make_data (rife_args 3 2 1 False False))
                       (newVideoFrame (blend 0 1 (1 / 2)) (numbered {} 0)) \<rparr>
   \<and> props (numbered {} 0) ''_DurationNum'' = Some (PInt 1)
   \<and> props (numbered {} 0) ''_DurationDen'' = Some (PInt 24)
   \<and> props (rescale_duration (make_data (rife_args 3 2 1 False False))
               (newVideoFrame (blend 0 1 (1 / 2)) (numbered {} 0))) ''_DurationNum'' = Some (PInt 1)
   \<and> props (rescale_duration (make_data (rife_args 3 2 1 False False))
               (newVideoFrame (blend 0 1 (1 / 2)) (numbered {} 0))) ''_DurationDen'' = Some (PInt 48)
   \<and> coprime (1::int) 48 \<and> Fract 1 48 = Fract 1 24 * Fract 1 2
   \<and> rifeGetFrame_ready blend (scored 0) (scored 0) (make_data (rife_args 3 2 1 False False)) 0
       = Inr \<lparr> got = [(Node, 0)], engine = None,
               dst = rescale_duration (make_data (rife_args 3 2 1 False False)) (scored 0 0) \<rparr>
   \<and> props (rescale_duration (make_data (rife_args 3 2 1 False False)) (scored 0 0)) = props (scored 0 0)"
proof -
  let ?a = "rife_args 3 2 1 False False"
  let ?d = "make_data ?a"
  let ?r1 = "\<lparr> got = [(Node, 0), (Node, 1)], engine = Some (0, 1, 1 / 2),
               dst = rescale_duration ?d (newVideoFrame (blend 0 1 (1 / 2)) (numbered {} 0)) \<rparr>"
  let ?r0 = "\<lparr> got = [(Node, 0)], engine = None, dst = rescale_duration ?d (scored 0 0) \<rparr>"
  have c: "rifeCreate one_gpu ?a = Filter ?d"
    by (rule one_gpu_create) (simp add: sample_defs)
  have fn: "frameNum ?d 1 = 0" "frameNum ?d 0 = 0" by (simp_all add: frameNum_def sample_defs)
  have t: "timestep ?d 1 = 1 / 2" by (simp add: timestep_def remainder_def sample_defs)
  have i: "interpolate ?d 1" "\<not> interpolate ?d 0" by (simp_all add: interpolate_def remainder_def sample_defs)
  have s: "\<not> skip ?d" "\<not> sceneChange ?d" "skip_threshold ?d = 60" "multiplier ?d = 2" "divisor ?d = 1"
    by (simp_all add: sample_defs)
  have nx: "i32_add 0 1 = 1" by (simp add: i32_add_def wrap32_def)
  have px: "pixels (numbered F j) = j" for F j by (simp add: numbered_def)
  have p: "props (numbered {} 0) ''_DurationNum'' = Some (PInt 1)"
    "props (numbered {} 0) ''_DurationDen'' = Some (PInt 24)"
    "props (scored 0 0) ''_DurationNum'' = None"
    by (simp_all add: numbered_def scored_def)
  have r1: "rifeGetFrame_ready blend (numbered {}) (scored 0) ?d 1 = Inr ?r1"
    by (simp add: rifeGetFrame_ready_def Let_def i fn t s nx px)
  have r0: "rifeGetFrame_ready blend (scored 0) (scored 0) ?d 0 = Inr ?r0"
    by (simp add: rifeGetFrame_ready_def Let_def i fn copyFrame_def)
  have v: "props (dst ?r1) ''_DurationNum'' = Some (PInt 1)"
    "props (dst ?r1) ''_DurationDen'' = Some (PInt 48)"
    by (simp_all add: rescale_duration_def newVideoFrame_def mapGetInt_def mapSetInt_def
        muldivRational_def Let_def p s)
  from duration_rescaled [OF c r1] p(1,2)
  obtain x' y' where "props (dst ?r1) ''_DurationNum'' = Some (PInt x')"
    and "props (dst ?r1) ''_DurationDen'' = Some (PInt y')"
    and "coprime x' y'" and "Fract x' y' = Fract 1 24 * Fract (divisor ?d) (multiplier ?d)"
    unfolding fn by (elim conjE allE [of _ 1] allE [of _ 24]) auto
  with v have low: "coprime (1::int) 48" "Fract 1 48 = Fract 1 24 * Fract 1 2"
    by (simp_all add: s)
  from duration_rescaled [OF c r0] p(3)
  have "props (dst ?r0) = props (scored 0 0)" by (simp add: fn)
  with c r1 r0 p(1,2) v low show ?thesis by simp
qed

subsection \<open>The semaphore\<close>

lemma sum_map_update:
  fixes f :: "'a \<Rightarrow> nat"
  assumes "i < length ts"
  shows "sum_list (map f (ts[i := p])) + f (ts ! i) = sum_list (map f ts) + f p"
  using assms
proof (induction ts arbitrary: i)
  case Nil
  then show ?case by simp
next
  case (Cons t ts)
  show ?case
  proof (cases i)
    case 0
    then show ?thesis by simp
  next
    case (Suc j)
    with Cons.prems have "j < length ts" by simp
    from Cons.IH [OF this] show ?thesis by (simp add: Suc)
  qed
qed

lemma filter_step_tokens:
  "tokens (filter_step g s) + held (filter_step g s) = tokens g + held g"
proof (cases "fst s < length (threads g)")
  case False
  then show ?thesis by (simp add: filter_step_def Let_def)
next
  case True
  note u = sum_map_update [OF True, of holds_token]
  show ?thesis
  proof (cases "threads g ! fst s")
    case AtAcquire
    with u [of InProcess] show ?thesis
      by (simp add: filter_step_def Let_def held_def True)
  next
    case InProcess
    with u [of "AtRelease (snd s)"] show ?thesis
      by (simp add: filter_step_def Let_def held_def True)
  next
    case (AtRelease r)
    with u [of "Returned r"] show ?thesis
      by (simp add: filter_step_def Let_def held_def True)
  next
    case (Returned r)
    then show ?thesis by (simp add: filter_step_def Let_def True)
  qed
qed

lemma run_filter_tokens:
  "tokens (run_filter g sched) + held (run_filter g sched) = tokens g + held g"
  unfolding run_filter_def
  by (induction sched arbitrary: g) (simp_all add: filter_step_tokens)

lemma in_flight_le_held: "in_flight g \<le> held g"
proof -
  have "in_process p \<le> holds_token p" for p by (cases p) simp_all
  then show ?thesis unfolding in_flight_def held_def by (intro sum_list_mono) simp
qed

lemma all_returned_held: "all_returned g \<Longrightarrow> held g = 0"
proof -
  have "has_returned p \<Longrightarrow> holds_token p = 0" for p by (cases p) simp_all
  then show "all_returned g \<Longrightarrow> held g = 0"
    unfolding all_returned_def held_def by (induction "threads g" arbitrary: g) (auto simp: list_all_iff)
qed

lemma gate_init_held: "held (gate_init d k) = 0" and gate_init_tokens: "tokens (gate_init d k) = semaphore d"
  by (simp_all add: gate_init_def held_def)

text \<open>Claim C9. The semaphore of a constructed filter starts at the configured GPU thread
  count \<open>N\<close>, which is at least 1. Whatever the number of concurrent calls of \<^verbatim>\<open>filter\<close> and
  whatever the order of their steps, at most \<open>N\<close> of them are inside the engine at any
  time; every call holds one token from its \<^verbatim>\<open>acquire\<close> to its \<^verbatim>\<open>release\<close>, which follows
  the engine call whether it succeeded or failed, so tokens in the semaphore plus tokens
  held always make \<open>N\<close>, and once all calls have returned the semaphore is back at \<open>N\<close>.\<close>

theorem gate_capacity:
  assumes "rifeCreate e a = Filter d"
  shows "1 \<le> semaphore d
       \<and> in_flight (run_filter (gate_init d k) sched) \<le> semaphore d
       \<and> tokens (run_filter (gate_init d k) sched) + held (run_filter (gate_init d k) sched) = semaphore d
       \<and> (all_returned (run_filter (gate_init d k) sched) \<longrightarrow>
            tokens (run_filter (gate_init d k) sched) = semaphore d)"
proof -
  let ?g = "run_filter (gate_init d k) sched"
  from assms have d: "d = make_data a" and cr: "check_ranges e a = None"
    by (rule rifeCreate_Filter)+
  have one: "1 \<le> semaphore d" using check_ranges_None(7) [OF cr] by (simp add: d make_data_simps)
  have inv: "tokens ?g + held ?g = semaphore d"
    by (simp add: run_filter_tokens gate_init_held gate_init_tokens)
  then have "held ?g \<le> semaphore d" by simp
  with in_flight_le_held [of ?g] have "in_flight ?g \<le> semaphore d" by simp
  moreover have "tokens ?g = semaphore d" if "all_returned ?g"
    using inv all_returned_held [OF that] by simp
  ultimately show ?thesis using one inv by simp
qed

theorem gate_capacity_witness:
  "rifeCreate one_gpu (rife_args 3 2 1 False False) = Filter (make_data (rife_args 3 2 1 False False))
   \<and> semaphore (make_data (rife_args 3 2 1 False False)) = 2
   \<and> run_filter (gate_init (make_data (rife_args 3 2 1 False False)) 3) [(0, True), (1, True), (2, True)]
       = \<lparr> tokens = 0, threads = [InProcess, InProcess, AtAcquire] \<rparr>
   \<and> in_flight \<lparr> tokens = 0, threads = [InProcess, InProcess, AtAcquire] \<rparr> = 2
   \<and> run_filter (gate_init (make_data (rife_args 3 2 1 False False)) 3)
        [(0, True), (1, True), (2, True), (0, False), (0, True), (2, True), (1, True), (2, True), (1, True), (2, True)]
       = \<lparr> tokens = 2, threads = [Returned False, Returned True, Returned True] \<rparr>
   \<and> all_returned \<lparr> tokens = 2, threads = [Returned False, Returned True, Returned True] \<rparr>"
proof -
  let ?a = "rife_args 3 2 1 False False"
  let ?d = "make_data ?a"
  have c: "rifeCreate one_gpu ?a = Filter ?d"
    by (rule one_gpu_create) (simp add: sample_defs)
  have s: "semaphore ?d = 2" by (simp add: sample_defs)
  have g0: "gate_init ?d 3 = \<lparr> tokens = 2, threads = [AtAcquire, AtAcquire, AtAcquire] \<rparr>"
    by (simp add: gate_init_def s numeral_3_eq_3)
  have r1: "run_filter (gate_init ?d 3) [(0, True), (1, True), (2, True)]
       = \<lparr> tokens = 0, threads = [InProcess, InProcess, AtAcquire] \<rparr>"
    by (simp add: g0 run_filter_def filter_step_def Let_def)
  have r2: "run_filter (gate_init ?d 3)
        [(0, True), (1, True), (2, True), (0, False), (0, True), (2, True), (1, True), (2, True), (1, True), (2, True)]
       = \<lparr> tokens = 2, threads = [Returned False, Returned True, Returned True] \<rparr>"
    by (simp add: g0 run_filter_def filter_step_def Let_def)
  from gate_capacity [OF c, of 3 "[(0, True), (1, True), (2, True)]"]
    gate_capacity [OF c, of 3 "[(0, True), (1, True), (2, True), (0, False), (0, True), (2, True), (1, True), (2, True), (1, True), (2, True)]"]
  show ?thesis using c s r1 r2 by (simp add: in_flight_def all_returned_def)
qed

end
